theory Spec2Isabelle
  imports Complex_Main "HOL-Library.Monad_Syntax"
begin

section \<open>Numbers, tuples and the Math object\<close>

text \<open>
  The globe component (\<^verbatim>\<open>SupplyChainMap\<close> with its \<^verbatim>\<open>versor\<close> object) computes on
  JavaScript numbers. Its algebra is embedded over the real numbers, the values that the
  binary64 operations approximate; tuples of the source are HOL tuples. Two places need
  more than that and get it below: the operations that yield \<^verbatim>\<open>NaN\<close> or an infinity
  (a second, checked copy of the quaternion construction), and the loop that samples a
  route, whose number of iterations is decided by binary64 rounding.
\<close>

type_synonym geo = "real \<times> real"
type_synonym screen = "real \<times> real"
type_synonym vec3 = "real \<times> real \<times> real"
type_synonym quat = "real \<times> real \<times> real \<times> real"
type_synonym euler = "real \<times> real \<times> real"

text \<open>
  \<^verbatim>\<open>Math.atan2(y, x)\<close>: the angle of the point \<open>(x, y)\<close> in \<open>(-\<pi>, \<pi>]\<close>, and 0 at the
  origin. It is defined for all arguments.
\<close>

definition Math_atan2 :: "real \<Rightarrow> real \<Rightarrow> real" where
  "Math_atan2 y x =
     (if 0 < x then arctan (y / x)
      else if x < 0 then (if 0 \<le> y then arctan (y / x) + pi else arctan (y / x) - pi)
      else if 0 < y then pi / 2
      else if y < 0 then - (pi / 2)
      else 0)"

text \<open>
  The operations of the source that can leave the finite numbers: \<^verbatim>\<open>Math.sqrt\<close> of a
  negative number and \<^verbatim>\<open>Math.asin\<close> outside \<open>[-1, 1]\<close> are \<^verbatim>\<open>NaN\<close>, a division by
  zero is \<^verbatim>\<open>NaN\<close> or an infinity. \<open>None\<close> stands for all of these.
\<close>

definition js_sqrt :: "real \<Rightarrow> real option" where
  "js_sqrt x = (if x < 0 then None else Some (sqrt x))"

definition js_div :: "real \<Rightarrow> real \<Rightarrow> real option" where
  "js_div x y = (if y = 0 then None else Some (x / y))"

definition js_asin :: "real \<Rightarrow> real option" where
  "js_asin x = (if x < - 1 \<or> 1 < x then None else Some (arcsin x))"

section \<open>The versor object\<close>

text \<open>\<^verbatim>\<open>versor.cartesian(e)\<close>: longitude and latitude in degrees to a 3D vector.\<close>

definition versor_cartesian :: "geo \<Rightarrow> vec3" where
  "versor_cartesian e =
     (let l = fst e * pi / 180;
          p = snd e * pi / 180;
          cp = cos p
      in (cp * cos l, cp * sin l, sin p))"

fun versor_dot :: "vec3 \<Rightarrow> vec3 \<Rightarrow> real" where
  "versor_dot (a0, a1, a2) (b0, b1, b2) = a0 * b0 + a1 * b1 + a2 * b2"

fun versor_cross :: "vec3 \<Rightarrow> vec3 \<Rightarrow> vec3" where
  "versor_cross (a0, a1, a2) (b0, b1, b2) =
     (a1 * b2 - a2 * b1, a2 * b0 - a0 * b2, a0 * b1 - a1 * b0)"

text \<open>
  \<^verbatim>\<open>versor.rotation(v0, v1)\<close>: the quaternion built from the cross and the dot product,
  with one branch for a negative dot product and one for the rest.
\<close>

definition versor_rotation :: "vec3 \<Rightarrow> vec3 \<Rightarrow> quat" where
  "versor_rotation v0 v1 =
     (let c = versor_cross v0 v1;
          d = versor_dot v0 v1
      in if d < 0
         then (sqrt ((1 - d) / 2),
               fst c / sqrt (2 * (1 - d)),
               fst (snd c) / sqrt (2 * (1 - d)),
               snd (snd c) / sqrt (2 * (1 - d)))
         else (sqrt ((1 + d) / 2),
               fst c / sqrt (2 * (1 + d)),
               fst (snd c) / sqrt (2 * (1 + d)),
               snd (snd c) / sqrt (2 * (1 + d))))"

text \<open>The number under the square root by which the chosen branch divides.\<close>

definition rotation_divisor :: "vec3 \<Rightarrow> vec3 \<Rightarrow> real" where
  "rotation_divisor v0 v1 =
     (let d = versor_dot v0 v1
      in if d < 0 then sqrt (2 * (1 - d)) else sqrt (2 * (1 + d)))"

fun versor_multiply :: "quat \<Rightarrow> quat \<Rightarrow> quat" where
  "versor_multiply (a0, a1, a2, a3) (b0, b1, b2, b3) =
     (a0 * b0 - a1 * b1 - a2 * b2 - a3 * b3,
      a0 * b1 + a1 * b0 + a2 * b3 - a3 * b2,
      a0 * b2 - a1 * b3 + a2 * b0 + a3 * b1,
      a0 * b3 + a1 * b2 - a2 * b1 + a3 * b0)"

fun versor_toEuler :: "quat \<Rightarrow> euler" where
  "versor_toEuler (q0, q1, q2, q3) =
     (Math_atan2 (2 * (q0 * q1 + q2 * q3)) (1 - 2 * (q1 * q1 + q2 * q2)) * 180 / pi,
      arcsin (max (- 1) (min 1 (2 * (q0 * q2 - q3 * q1)))) * 180 / pi,
      Math_atan2 (2 * (q0 * q3 + q1 * q2)) (1 - 2 * (q2 * q2 + q3 * q3)) * 180 / pi)"

subsection \<open>The same construction with the undefined results made explicit\<close>

text \<open>
  \<^verbatim>\<open>versor.rotation\<close> and \<^verbatim>\<open>versor.toEuler\<close> once more, every square root, division
  and arc sine through its checked operation, in the order the source evaluates them.
\<close>

definition rotation_checked :: "vec3 \<Rightarrow> vec3 \<Rightarrow> quat option" where
  "rotation_checked v0 v1 =
     (let c = versor_cross v0 v1;
          d = versor_dot v0 v1
      in if d < 0
         then do {
           w \<leftarrow> js_sqrt ((1 - d) / 2);
           s1 \<leftarrow> js_sqrt (2 * (1 - d));
           x \<leftarrow> js_div (fst c) s1;
           s2 \<leftarrow> js_sqrt (2 * (1 - d));
           y \<leftarrow> js_div (fst (snd c)) s2;
           s3 \<leftarrow> js_sqrt (2 * (1 - d));
           z \<leftarrow> js_div (snd (snd c)) s3;
           Some (w, x, y, z)
         }
         else do {
           w \<leftarrow> js_sqrt ((1 + d) / 2);
           s1 \<leftarrow> js_sqrt (2 * (1 + d));
           x \<leftarrow> js_div (fst c) s1;
           s2 \<leftarrow> js_sqrt (2 * (1 + d));
           y \<leftarrow> js_div (fst (snd c)) s2;
           s3 \<leftarrow> js_sqrt (2 * (1 + d));
           z \<leftarrow> js_div (snd (snd c)) s3;
           Some (w, x, y, z)
         })"

fun toEuler_checked :: "quat \<Rightarrow> euler option" where
  "toEuler_checked (q0, q1, q2, q3) = do {
     pitch \<leftarrow> js_asin (max (- 1) (min 1 (2 * (q0 * q2 - q3 * q1))));
     Some (Math_atan2 (2 * (q0 * q1 + q2 * q3)) (1 - 2 * (q1 * q1 + q2 * q2)) * 180 / pi,
           pitch * 180 / pi,
           Math_atan2 (2 * (q0 * q3 + q1 * q2)) (1 - 2 * (q2 * q2 + q3 * q3)) * 180 / pi)
   }"

section \<open>The dataset and the state of the component\<close>

record location =
  name :: string
  lat :: real
  lng :: real

text \<open>
  \<^verbatim>\<open>SupplyChainNode\<close>, with the fields the computations read (the identifier is
  \<^verbatim>\<open>id\<close> in the source).
\<close>

record SupplyChainNode = location +
  id' :: string
  distanceKm :: real
  emissionsKgCO2 :: real

definition SUPPLY_CHAIN_DATA :: "SupplyChainNode list" where
  "SUPPLY_CHAIN_DATA =
     [\<lparr>name = ''Shanghai Electronics Co.'', lat = 31.2304, lng = 121.4737,
       id' = ''supplier-1'', distanceKm = 11500, emissionsKgCO2 = 2070\<rparr>,
      \<lparr>name = ''Bavaria Steel GmbH'', lat = 48.1351, lng = 11.582,
       id' = ''supplier-2'', distanceKm = 7200, emissionsKgCO2 = 3456\<rparr>,
      \<lparr>name = ''Monterrey Parts SA'', lat = 25.6866, lng = - 100.3161,
       id' = ''supplier-3'', distanceKm = 1800, emissionsKgCO2 = 2700\<rparr>,
      \<lparr>name = ''Toronto Chemicals Inc.'', lat = 43.6532, lng = - 79.3832,
       id' = ''supplier-4'', distanceKm = 800, emissionsKgCO2 = 360\<rparr>,
      \<lparr>name = ''Vietnam Textiles Ltd.'', lat = 10.8231, lng = 106.6297,
       id' = ''supplier-5'', distanceKm = 14200, emissionsKgCO2 = 454\<rparr>,
      \<lparr>name = ''UK Precision Ltd.'', lat = 51.5074, lng = - 0.1278,
       id' = ''supplier-6'', distanceKm = 5900, emissionsKgCO2 = 5900\<rparr>,
      \<lparr>name = ''Brazil Mining Corp.'', lat = - 23.5505, lng = - 46.6333,
       id' = ''supplier-7'', distanceKm = 8100, emissionsKgCO2 = 6480\<rparr>,
      \<lparr>name = ''Japan Motors Co.'', lat = 35.6762, lng = 139.6503,
       id' = ''supplier-8'', distanceKm = 10200, emissionsKgCO2 = 1020\<rparr>]"

definition facilityLocation :: location where
  "facilityLocation = \<lparr>name = ''US Facility'', lat = 39.8283, lng = - 98.5795\<rparr>"

text \<open>The initial value of the \<^verbatim>\<open>rotation\<close> state: \<^verbatim>\<open>useState([-lng, -lat, 0])\<close>.\<close>

definition initialRotation :: "location \<Rightarrow> euler" where
  "initialRotation facility = (- lng facility, - lat facility, 0)"

text \<open>
  The rotation state of the component together with the three variables \<^verbatim>\<open>v0\<close>,
  \<^verbatim>\<open>r0\<close>, \<^verbatim>\<open>q0\<close> that the drag effect declares as \<^verbatim>\<open>null\<close> and its handlers share.
\<close>

record map_state =
  rotation :: euler
  v0 :: "vec3 option"
  r0 :: "euler option"
  q0 :: "quat option"

section \<open>Drag handling\<close>

text \<open>
  The handlers call \<^verbatim>\<open>projection.invert\<close> of d3-geo's \<^verbatim>\<open>geoOrthographic\<close>, configured
  with the scale and the translation of the canvas and with a rotation. That library is
  not part of the sources, so the handlers take it as the parameter \<open>invert\<close>: the
  rotation it is configured with, then the canvas position, to a coordinate or nothing.
\<close>

definition handleMouseDown ::
  "(euler \<Rightarrow> screen \<Rightarrow> geo option) \<Rightarrow> map_state \<Rightarrow> screen \<Rightarrow> map_state" where
  "handleMouseDown invert st xy =
     (case invert (rotation st) xy of
        Some pos \<Rightarrow>
          st\<lparr>v0 := Some (versor_cartesian pos), r0 := Some (rotation st), q0 := Some (1, 0, 0, 0)\<rparr>
      | None \<Rightarrow> st)"

text \<open>The quaternion that \<^verbatim>\<open>handleMouseMove\<close> passes to \<^verbatim>\<open>versor.toEuler\<close>.\<close>

definition drag_quaternion :: "vec3 \<Rightarrow> quat \<Rightarrow> geo \<Rightarrow> quat" where
  "drag_quaternion v q pos =
     (let v1 = versor_cartesian pos;
          q1 = versor_rotation v v1
      in versor_multiply q q1)"

definition handleMouseMove ::
  "(euler \<Rightarrow> screen \<Rightarrow> geo option) \<Rightarrow> map_state \<Rightarrow> screen \<Rightarrow> map_state" where
  "handleMouseMove invert st xy =
     (case (v0 st, r0 st, q0 st) of
        (Some v, Some r, Some q) \<Rightarrow>
          (case invert r xy of
             Some pos \<Rightarrow>
               (let e = versor_toEuler (drag_quaternion v q pos)
                in st\<lparr>rotation :=
                     (fst r + fst e, fst (snd r) + fst (snd e), snd (snd r) + snd (snd e))\<rparr>)
           | None \<Rightarrow> st)
      | _ \<Rightarrow> st)"

definition handleMouseUp :: "map_state \<Rightarrow> map_state" where
  "handleMouseUp st = st\<lparr>v0 := None, r0 := None, q0 := None\<rparr>"

text \<open>
  The events of the canvas. \<open>EffectRun\<close> is the body of the drag effect running again
  (its dependencies are \<^verbatim>\<open>[dimensions, rotation]\<close>): the new closure starts with
  \<^verbatim>\<open>v0\<close>, \<^verbatim>\<open>r0\<close> and \<^verbatim>\<open>q0\<close> at \<^verbatim>\<open>null\<close>.
\<close>

datatype event =
  MouseDown real real
  | MouseMove real real
  | MouseUp
  | MouseLeave
  | EffectRun

fun handle :: "(euler \<Rightarrow> screen \<Rightarrow> geo option) \<Rightarrow> map_state \<Rightarrow> event \<Rightarrow> map_state" where
  "handle invert st (MouseDown x y) = handleMouseDown invert st (x, y)"
| "handle invert st (MouseMove x y) = handleMouseMove invert st (x, y)"
| "handle invert st MouseUp = handleMouseUp st"
| "handle invert st MouseLeave = handleMouseUp st"
| "handle invert st EffectRun = st\<lparr>v0 := None, r0 := None, q0 := None\<rparr>"

fun run :: "(euler \<Rightarrow> screen \<Rightarrow> geo option) \<Rightarrow> map_state \<Rightarrow> event list \<Rightarrow> map_state" where
  "run invert st [] = st"
| "run invert st (ev # evs) = run invert (handle invert st ev) evs"

text \<open>
  The component between two events. \<^verbatim>\<open>handleMouseMove\<close> calls \<^verbatim>\<open>setRotation\<close> with a new
  array whenever it has its three variables and the inversion gives a position. The
  state \<^verbatim>\<open>rotation\<close> is among the dependencies \<^verbatim>\<open>[dimensions, rotation]\<close> of the effect
  that declares the handlers, so the render that follows removes the listeners and runs
  the effect again. \<open>move_calls_setRotation\<close> is the condition of that call,
  \<open>pointer_move\<close> is a move together with the render it causes, and \<open>component_run\<close>
  is \<open>run\<close> with every move taken so.
\<close>

definition move_calls_setRotation ::
  "(euler \<Rightarrow> screen \<Rightarrow> geo option) \<Rightarrow> map_state \<Rightarrow> screen \<Rightarrow> bool" where
  "move_calls_setRotation invert st xy =
     (case (v0 st, r0 st, q0 st) of
        (Some v, Some r, Some q) \<Rightarrow> (case invert r xy of Some pos \<Rightarrow> True | None \<Rightarrow> False)
      | _ \<Rightarrow> False)"

definition pointer_move ::
  "(euler \<Rightarrow> screen \<Rightarrow> geo option) \<Rightarrow> map_state \<Rightarrow> screen \<Rightarrow> map_state" where
  "pointer_move invert st xy =
     (if move_calls_setRotation invert st xy
      then handle invert (handleMouseMove invert st xy) EffectRun
      else handleMouseMove invert st xy)"


section \<open>Hover\<close>

text \<open>
  The loop of \<^verbatim>\<open>handleHover\<close> over the suppliers, with its \<^verbatim>\<open>break\<close>. The projection
  (d3-geo again) is the parameter \<open>projection\<close>; \<open>None\<close> is its \<^verbatim>\<open>null\<close>.
\<close>

fun hover_find ::
  "(geo \<Rightarrow> screen option) \<Rightarrow> real \<Rightarrow> real \<Rightarrow> SupplyChainNode list \<Rightarrow> SupplyChainNode option" where
  "hover_find projection x y [] = None"
| "hover_find projection x y (supplier # rest) =
     (case projection (lng supplier, lat supplier) of
        Some pos \<Rightarrow>
          if sqrt ((fst pos - x)\<^sup>2 + (snd pos - y)\<^sup>2) < 12 then Some supplier
          else hover_find projection x y rest
      | None \<Rightarrow> hover_find projection x y rest)"

text \<open>The content of the tooltip that \<^verbatim>\<open>handleHover\<close> sets (\<open>None\<close>: no tooltip).\<close>

definition handleHover :: "(geo \<Rightarrow> screen option) \<Rightarrow> real \<Rightarrow> real \<Rightarrow> SupplyChainNode option" where
  "handleHover projection x y = hover_find projection x y SUPPLY_CHAIN_DATA"

text \<open>The test of the loop on one supplier, and the pixel distance it compares.\<close>

definition pixel_distance :: "screen \<Rightarrow> real \<Rightarrow> real \<Rightarrow> real" where
  "pixel_distance pos x y = sqrt ((fst pos - x)\<^sup>2 + (snd pos - y)\<^sup>2)"

definition hover_hit :: "(geo \<Rightarrow> screen option) \<Rightarrow> real \<Rightarrow> real \<Rightarrow> SupplyChainNode \<Rightarrow> bool" where
  "hover_hit projection x y supplier =
     (case projection (lng supplier, lat supplier) of
        Some pos \<Rightarrow> pixel_distance pos x y < 12
      | None \<Rightarrow> False)"

section \<open>Particles\<close>

text \<open>The update of one particle at the end of \<^verbatim>\<open>render\<close>, and of the whole array.\<close>

definition particle_advance :: "real \<Rightarrow> real" where
  "particle_advance p = (let newP = p + 0.003 in if newP > 1 then 0 else newP)"

definition update_particles :: "real list \<Rightarrow> real list" where
  "update_particles ps = map particle_advance ps"

section \<open>Sampling a route\<close>

text \<open>
  \<^verbatim>\<open>for (let t = 0; t <= 1; t += 0.02) arcPoints.push(interpolate(t))\<close>. Whether the
  loop runs once more is decided by a comparison of rounded sums, so \<open>t\<close> is embedded as
  the binary64 number it is. Every binary64 number from \<open>2\<^sup>-\<^sup>6\<close> up to \<open>2\<close>, and zero, is
  a whole number of steps of \<open>2\<^sup>-\<^sup>5\<^sup>8\<close> whose binary digits span at most 53 places; a
  natural number counts these steps. The sum of two such numbers is exact as a natural
  number, and binary64 addition rounds it to 53 significant bits, to the nearest, ties to
  the even significand.
\<close>

type_synonym ticks = nat

definition ticks_value :: "ticks \<Rightarrow> real" where
  "ticks_value n = real n / 2 ^ 58"

text \<open>How many low bits a number loses when it is cut to 53 significant bits.\<close>

function excess_bits :: "nat \<Rightarrow> nat" where
  "excess_bits n = (if n < 2 ^ 53 then 0 else Suc (excess_bits (n div 2)))"
  by pat_completeness auto
termination
  by (relation "measure (\<lambda>n. n)") auto

declare excess_bits.simps [simp del]

definition round53 :: "nat \<Rightarrow> nat" where
  "round53 n =
     (let k = excess_bits n;
          hi = n div 2 ^ k;
          lo = n mod 2 ^ k
      in (if 2 ^ k < 2 * lo \<or> (2 * lo = 2 ^ k \<and> odd hi) then hi + 1 else hi) * 2 ^ k)"

definition double_add :: "ticks \<Rightarrow> ticks \<Rightarrow> ticks" where
  "double_add a b = round53 (a + b)"

text \<open>The literals \<^verbatim>\<open>1\<close> and \<^verbatim>\<open>0.02\<close> as binary64 numbers.\<close>

definition ticks_one :: ticks where
  "ticks_one = 2 ^ 58"

definition ticks_step :: ticks where
  "ticks_step = 5764607523034235"

text \<open>
  The loop. The interpolator \<^verbatim>\<open>geoInterpolate(source, target)\<close> is d3-geo's and is the
  parameter \<open>interpolate\<close>.
\<close>

partial_function (option) arc_loop ::
  "(real \<Rightarrow> geo) \<Rightarrow> ticks \<Rightarrow> geo list \<Rightarrow> geo list option" where
  "arc_loop interpolate t arcPoints =
     (if t \<le> ticks_one
      then arc_loop interpolate (double_add t ticks_step) (arcPoints @ [interpolate (ticks_value t)])
      else Some arcPoints)"

definition arcPoints :: "(real \<Rightarrow> geo) \<Rightarrow> geo list option" where
  "arcPoints interpolate = arc_loop interpolate 0 []"

section \<open>Notions the claims are stated with\<close>

text \<open>
  The magnitude of a quaternion, its conjugate, and the action of a quaternion \<open>q\<close> on a
  vector \<open>v\<close> as the vector part of \<open>q v q\<^sup>*\<close>. The source has none of them: they state
  what the claims say about the quaternions of the source. The products are
  \<^verbatim>\<open>versor.multiply\<close>.
\<close>

definition quat_norm :: "quat \<Rightarrow> real" where
  "quat_norm q = (case q of (w, x, y, z) \<Rightarrow> sqrt (w\<^sup>2 + x\<^sup>2 + y\<^sup>2 + z\<^sup>2))"

definition quat_conj :: "quat \<Rightarrow> quat" where
  "quat_conj q = (case q of (w, x, y, z) \<Rightarrow> (w, - x, - y, - z))"

definition quat_rotate :: "quat \<Rightarrow> vec3 \<Rightarrow> vec3" where
  "quat_rotate q v =
     (case versor_multiply (versor_multiply q (0, fst v, fst (snd v), snd (snd v))) (quat_conj q) of
        (w, x, y, z) \<Rightarrow> (x, y, z))"

text \<open>
  What holds of the drag variables in every state: an anchor vector is a unit vector, and
  \<^verbatim>\<open>q0\<close> is the identity quaternion that \<^verbatim>\<open>handleMouseDown\<close> stores.
\<close>

definition anchor_ok :: "map_state \<Rightarrow> bool" where
  "anchor_ok st =
     ((\<forall>v. v0 st = Some v \<longrightarrow> versor_dot v v = 1)
      \<and> (\<forall>q. q0 st = Some q \<longrightarrow> q = (1, 0, 0, 0)))"

text \<open>The values that \<open>t\<close> takes in the sampling loop, in steps of \<open>2\<^sup>-\<^sup>5\<^sup>8\<close>.\<close>

definition sample_ticks :: "ticks list" where
  "sample_ticks =
     [0, 5764607523034235, 11529215046068470, 17293822569102704,
      23058430092136940, 28823037615171176, 34587645138205412,
      40352252661239648, 46116860184273880, 51881467707308112,
      57646075230342344, 63410682753376576, 69175290276410808,
      74939897799445040, 80704505322479280, 86469112845513520,
      92233720368547760, 97998327891582000, 103762935414616240,
      109527542937650480, 115292150460684720, 121056757983718960,
      126821365506753200, 132585973029787440, 138350580552821680,
      144115188075855904, 149879795598890144, 155644403121924384,
      161409010644958624, 167173618167992864, 172938225691027104,
      178702833214061344, 184467440737095584, 190232048260129824,
      195996655783164064, 201761263306198304, 207525870829232544,
      213290478352266784, 219055085875301024, 224819693398335264,
      230584300921369504, 236348908444403744, 242113515967437984,
      247878123490472224, 253642731013506464, 259407338536540704,
      265171946059574944, 270936553582609184, 276701161105643424,
      282465768628677664]"

section \<open>The projection, from its specification\<close>

text \<open>
  The component projects and inverts with d3-geo's \<^verbatim>\<open>geoOrthographic\<close>, whose code is
  not part of the sources. Where a claim is about the projection itself, the
  projection is the one that section 4.1 of the specification describes. A vector is
  read in the frame of \<^verbatim>\<open>versor.cartesian\<close>: the first component points from the centre
  of the sphere to the viewer when nothing is rotated (the depth), the second to the
  right of the screen, the third up, through the north pole. The three angles are
  applied as the \<^verbatim>\<open>rotate\<close> of the library applies them (the yaw is added to the
  longitude), under which the initial rotation of the source, \<^verbatim>\<open>[-lng, -lat, 0]\<close>, is
  the facility-centred one that the specification names.
\<close>

text \<open>
  Modelled from the spec: the yaw of \<^verbatim>\<open>project\<close>, a turn about the vertical axis by
  an angle in degrees (part of d3-geo's \<^verbatim>\<open>geoOrthographic\<close>, which is missing).
\<close>

definition yaw :: "real \<Rightarrow> vec3 \<Rightarrow> vec3" where
  "yaw deg v =
     (case v of (x, y, z) \<Rightarrow>
        let a = deg * pi / 180 in (x * cos a - y * sin a, x * sin a + y * cos a, z))"

text \<open>
  Modelled from the spec: the pitch of \<^verbatim>\<open>project\<close>, a turn about the horizontal axis
  (part of the missing \<^verbatim>\<open>geoOrthographic\<close>).
\<close>

definition pitch :: "real \<Rightarrow> vec3 \<Rightarrow> vec3" where
  "pitch deg v =
     (case v of (x, y, z) \<Rightarrow>
        let a = deg * pi / 180 in (x * cos a - z * sin a, y, x * sin a + z * cos a))"

text \<open>
  Modelled from the spec: the roll of \<^verbatim>\<open>project\<close>, a turn about the viewing axis
  (part of the missing \<^verbatim>\<open>geoOrthographic\<close>).
\<close>

definition roll :: "real \<Rightarrow> vec3 \<Rightarrow> vec3" where
  "roll deg v =
     (case v of (x, y, z) \<Rightarrow>
        let a = deg * pi / 180 in (x, y * cos a - z * sin a, y * sin a + z * cos a))"

text \<open>
  Modelled from the spec: the rotation of \<^verbatim>\<open>project\<close> by a RotationState, "yaw about
  the vertical axis, then pitch about the horizontal axis, then roll about the viewing
  axis, in that fixed order" (the missing \<^verbatim>\<open>geoOrthographic().rotate\<close>).
\<close>

definition rotate_view :: "euler \<Rightarrow> vec3 \<Rightarrow> vec3" where
  "rotate_view rot v = (case rot of (l, p, g) \<Rightarrow> roll g (pitch p (yaw l v)))"

text \<open>
  Modelled from the spec: the rotation undone, as \<^verbatim>\<open>invert\<close> needs it (the missing
  \<^verbatim>\<open>projection.invert\<close>).
\<close>

definition unrotate_view :: "euler \<Rightarrow> vec3 \<Rightarrow> vec3" where
  "unrotate_view rot v = (case rot of (l, p, g) \<Rightarrow> yaw (- l) (pitch (- p) (roll (- g) v)))"

text \<open>
  Modelled from the spec: longitude and latitude in degrees of a point of the unit sphere,
  the GeoPoint that \<^verbatim>\<open>invert\<close> recovers (the missing \<^verbatim>\<open>projection.invert\<close>).
\<close>

definition spherical :: "vec3 \<Rightarrow> geo" where
  "spherical v = (case v of (x, y, z) \<Rightarrow> (Math_atan2 y x * 180 / pi, arcsin z * 180 / pi))"

text \<open>
  Modelled from the spec: \<^verbatim>\<open>project(point, rotation, scale, center)\<close>, the missing call
  \<^verbatim>\<open>projection(point)\<close> of d3-geo. It rotates the unit vector of the point, takes the two
  screen components "scaled and translated to screen space", and "returns NotVisible when
  the rotated point's depth component indicates it lies on the far hemisphere"; \<open>None\<close>
  is NotVisible.
\<close>

definition spec_project :: "euler \<Rightarrow> real \<Rightarrow> screen \<Rightarrow> geo \<Rightarrow> screen option" where
  "spec_project rot scale center p =
     (case rotate_view rot (versor_cartesian p) of
        (depth, right, up) \<Rightarrow>
          if depth < 0 then None
          else Some (fst center + scale * right, snd center - scale * up))"

text \<open>
  Modelled from the spec: \<^verbatim>\<open>invert(screenPoint, rotation, scale, center)\<close>, the missing
  \<^verbatim>\<open>projection.invert\<close> of d3-geo. It "inverts the orthographic formula to recover a
  point on the front hemisphere; returns null if the screen point lies outside the
  sphere's silhouette (distance from center > scale)".
\<close>

definition spec_invert :: "euler \<Rightarrow> real \<Rightarrow> screen \<Rightarrow> screen \<Rightarrow> geo option" where
  "spec_invert rot scale center s =
     (let right = (fst s - fst center) / scale;
          up = (snd center - snd s) / scale
      in if scale < sqrt ((fst s - fst center)\<^sup>2 + (snd s - snd center)\<^sup>2) then None
         else Some (spherical (unrotate_view rot (sqrt (1 - right\<^sup>2 - up\<^sup>2), right, up))))"

text \<open>
  Modelled from the spec: the "angular distance from the view center" of a point, in
  degrees, under a rotation: the angle between the rotated point and the direction to the
  viewer (the view centre of the missing projection).
\<close>

definition view_angle :: "euler \<Rightarrow> geo \<Rightarrow> real" where
  "view_angle rot p = arccos (fst (rotate_view rot (versor_cartesian p))) * 180 / pi"

section \<open>Unit vectors and unit quaternions\<close>

lemma unit_sum: "(c * a)\<^sup>2 + (c * b)\<^sup>2 + s\<^sup>2 = 1"
  if "a\<^sup>2 + b\<^sup>2 = 1" and "c\<^sup>2 + s\<^sup>2 = 1" for a b c s :: real
proof -
  have "(c * a)\<^sup>2 + (c * b)\<^sup>2 = c\<^sup>2 * (a\<^sup>2 + b\<^sup>2)"
    by (simp add: power_mult_distrib distrib_left)
  with that show ?thesis by simp
qed

lemma cartesian_dot_self: "versor_dot (versor_cartesian e) (versor_cartesian e) = 1"
proof -
  have "versor_dot (versor_cartesian e) (versor_cartesian e) =
          (cos (snd e * pi / 180) * cos (fst e * pi / 180))\<^sup>2
        + (cos (snd e * pi / 180) * sin (fst e * pi / 180))\<^sup>2
        + (sin (snd e * pi / 180))\<^sup>2"
    by (simp add: versor_cartesian_def Let_def power2_eq_square)
  also have "\<dots> = 1"
    by (rule unit_sum) (simp_all add: add.commute)
  finally show ?thesis .
qed

text \<open>
  C10. For every longitude and latitude in degrees, \<^verbatim>\<open>versor.cartesian\<close> returns a vector
  whose squared components sum to one (\<open>cos\<^sup>2 lat cos\<^sup>2 lon + cos\<^sup>2 lat sin\<^sup>2 lon + sin\<^sup>2 lat = 1\<close>),
  so its Euclidean norm is exactly one and the anchor and target vectors are unit vectors
  without a normalisation step.
\<close>

theorem cartesian_unit_norm:
  "versor_cartesian (lon, lati) =
     (cos (lati * pi / 180) * cos (lon * pi / 180),
      cos (lati * pi / 180) * sin (lon * pi / 180),
      sin (lati * pi / 180))
   \<and> (cos (lati * pi / 180))\<^sup>2 * (cos (lon * pi / 180))\<^sup>2
       + (cos (lati * pi / 180))\<^sup>2 * (sin (lon * pi / 180))\<^sup>2
       + (sin (lati * pi / 180))\<^sup>2 = 1
   \<and> sqrt (versor_dot (versor_cartesian (lon, lati)) (versor_cartesian (lon, lati))) = 1"
proof -
  have "(cos (lati * pi / 180) * cos (lon * pi / 180))\<^sup>2
        + (cos (lati * pi / 180) * sin (lon * pi / 180))\<^sup>2
        + (sin (lati * pi / 180))\<^sup>2 = 1"
    by (rule unit_sum) (simp_all add: add.commute)
  then have "(cos (lati * pi / 180))\<^sup>2 * (cos (lon * pi / 180))\<^sup>2
       + (cos (lati * pi / 180))\<^sup>2 * (sin (lon * pi / 180))\<^sup>2
       + (sin (lati * pi / 180))\<^sup>2 = 1"
    by (simp add: power_mult_distrib)
  moreover have "versor_cartesian (lon, lati) =
     (cos (lati * pi / 180) * cos (lon * pi / 180),
      cos (lati * pi / 180) * sin (lon * pi / 180),
      sin (lati * pi / 180))"
    by (simp add: versor_cartesian_def Let_def)
  moreover have "sqrt (versor_dot (versor_cartesian (lon, lati)) (versor_cartesian (lon, lati))) = 1"
    by (simp add: cartesian_dot_self)
  ultimately show ?thesis
    by (intro conjI)
qed

text \<open>Lagrange's identity, and the norm of a product of quaternions.\<close>

lemma cross_dot_identity:
  "versor_dot (versor_cross a b) (versor_cross a b) + (versor_dot a b)\<^sup>2
     = versor_dot a a * versor_dot b b"
  by (cases a; cases b) (simp add: power2_eq_square algebra_simps)

lemma quat_norm_nonneg: "0 \<le> quat_norm q"
  by (cases q) (simp add: quat_norm_def)

lemma multiply_norm_sq:
  "(quat_norm (versor_multiply p q))\<^sup>2 = (quat_norm p)\<^sup>2 * (quat_norm q)\<^sup>2"
  apply (cases p; cases q)
  apply (simp add: quat_norm_def)
  apply (simp add: power2_eq_square algebra_simps)
  done

lemma multiply_norm: "quat_norm (versor_multiply p q) = quat_norm p * quat_norm q"
proof -
  have "(quat_norm (versor_multiply p q))\<^sup>2 = (quat_norm p * quat_norm q)\<^sup>2"
    by (simp add: multiply_norm_sq power_mult_distrib)
  then show ?thesis
    by (simp add: quat_norm_nonneg power2_eq_iff_nonneg)
qed

lemma multiply_one_left: "versor_multiply (1, 0, 0, 0) q = q"
  by (cases q) simp

text \<open>
  Both branches of \<^verbatim>\<open>versor.rotation\<close> have the shape \<open>(sqrt (s / 2), c / sqrt (2 s))\<close>,
  with \<open>s = 1 - d\<close> or \<open>s = 1 + d\<close>, and \<open>|c|\<^sup>2 = 1 - d\<^sup>2 = (2 - s) s\<close> for unit vectors.
\<close>

lemma branch_square_sum:
  fixes s c0 c1 c2 :: real
  assumes "0 < s" and "c0\<^sup>2 + c1\<^sup>2 + c2\<^sup>2 = (2 - s) * s"
  shows "(sqrt (s / 2))\<^sup>2 + (c0 / sqrt (2 * s))\<^sup>2 + (c1 / sqrt (2 * s))\<^sup>2
           + (c2 / sqrt (2 * s))\<^sup>2 = 1"
proof -
  have "(c0 / sqrt (2 * s))\<^sup>2 + (c1 / sqrt (2 * s))\<^sup>2 + (c2 / sqrt (2 * s))\<^sup>2
          = (c0\<^sup>2 + c1\<^sup>2 + c2\<^sup>2) / (2 * s)"
    using assms(1) by (simp add: power_divide add_divide_distrib)
  also have "\<dots> = (2 - s) / 2"
    using assms by simp
  finally show ?thesis
    using assms(1) by (simp add: field_simps)
qed

lemma rotation_unit:
  assumes "versor_dot a a = 1" and "versor_dot b b = 1"
  shows "quat_norm (versor_rotation a b) = 1"
proof -
  obtain c0 c1 c2 where c: "versor_cross a b = (c0, c1, c2)"
    by (cases "versor_cross a b")
  define d where "d = versor_dot a b"
  have cc: "c0\<^sup>2 + c1\<^sup>2 + c2\<^sup>2 = 1 - d\<^sup>2"
    using cross_dot_identity [of a b] assms by (simp add: c d_def power2_eq_square)
  show ?thesis
  proof (cases "d < 0")
    case True
    have "c0\<^sup>2 + c1\<^sup>2 + c2\<^sup>2 = (2 - (1 - d)) * (1 - d)"
      using cc by (simp add: power2_eq_square algebra_simps)
    with True have "(sqrt ((1 - d) / 2))\<^sup>2 + (c0 / sqrt (2 * (1 - d)))\<^sup>2
        + (c1 / sqrt (2 * (1 - d)))\<^sup>2 + (c2 / sqrt (2 * (1 - d)))\<^sup>2 = 1"
      by (intro branch_square_sum) simp_all
    with True show ?thesis
      by (simp add: versor_rotation_def Let_def c quat_norm_def d_def [symmetric])
  next
    case False
    have "c0\<^sup>2 + c1\<^sup>2 + c2\<^sup>2 = (2 - (1 + d)) * (1 + d)"
      using cc by (simp add: power2_eq_square algebra_simps)
    with False have "(sqrt ((1 + d) / 2))\<^sup>2 + (c0 / sqrt (2 * (1 + d)))\<^sup>2
        + (c1 / sqrt (2 * (1 + d)))\<^sup>2 + (c2 / sqrt (2 * (1 + d)))\<^sup>2 = 1"
      by (intro branch_square_sum) simp_all
    with False show ?thesis
      by (simp add: versor_rotation_def Let_def c quat_norm_def d_def [symmetric])
  qed
qed

section \<open>The drag handlers\<close>

lemma move_keeps_anchor:
  "v0 (handleMouseMove invert st xy) = v0 st
   \<and> r0 (handleMouseMove invert st xy) = r0 st
   \<and> q0 (handleMouseMove invert st xy) = q0 st"
  by (simp add: handleMouseMove_def Let_def split: option.splits)

lemma anchor_ok_down:
  assumes "anchor_ok st"
  shows "anchor_ok (handleMouseDown invert st xy)"
proof (cases "invert (rotation st) xy")
  case None
  with assms show ?thesis
    by (simp add: handleMouseDown_def)
next
  case (Some pos)
  then show ?thesis
    by (simp add: handleMouseDown_def anchor_ok_def cartesian_dot_self)
qed

lemma anchor_ok_move: "anchor_ok st \<Longrightarrow> anchor_ok (handleMouseMove invert st xy)"
  by (simp add: anchor_ok_def move_keeps_anchor)

lemma anchor_ok_handle: "anchor_ok st \<Longrightarrow> anchor_ok (handle invert st ev)"
proof (cases ev)
  case (MouseDown x y)
  then show "anchor_ok st \<Longrightarrow> ?thesis" by (simp add: anchor_ok_down)
next
  case (MouseMove x y)
  then show "anchor_ok st \<Longrightarrow> ?thesis" by (simp add: anchor_ok_move)
qed (simp_all add: anchor_ok_def handleMouseUp_def)

lemma anchor_ok_run: "anchor_ok st \<Longrightarrow> anchor_ok (run invert st evs)"
  by (induction evs arbitrary: st) (simp_all add: anchor_ok_handle)

text \<open>
  C3. Start with no drag in progress and let any sequence of events happen, of any length
  (presses, moves, releases, the effect running again). If a drag is then in progress,
  with anchor vector \<open>v\<close> and stored quaternion \<open>q\<close>, then for every coordinate \<open>pos\<close> that
  the next move inverts to, the quaternion of \<^verbatim>\<open>versor.rotation\<close> and the product of
  \<^verbatim>\<open>versor.multiply\<close> that is converted to Euler angles both have magnitude one (in
  real arithmetic), hence within \<open>[1 - \<epsilon>, 1 + \<epsilon>]\<close> for every \<open>\<epsilon> \<ge> 0\<close>.
\<close>

theorem drag_quaternion_unit:
  assumes idle: "v0 st = None" "q0 st = None"
    and anchor: "v0 (run invert st evs) = Some v" "q0 (run invert st evs) = Some q"
    and eps: "0 \<le> \<epsilon>"
  shows "quat_norm (versor_rotation v (versor_cartesian pos)) = 1
       \<and> quat_norm (drag_quaternion v q pos) = 1
       \<and> 1 - \<epsilon> \<le> quat_norm (drag_quaternion v q pos)
       \<and> quat_norm (drag_quaternion v q pos) \<le> 1 + \<epsilon>"
proof -
  from idle have "anchor_ok st"
    by (simp add: anchor_ok_def)
  then have "anchor_ok (run invert st evs)"
    by (rule anchor_ok_run)
  with anchor have v: "versor_dot v v = 1" and q: "q = (1, 0, 0, 0)"
    by (simp_all add: anchor_ok_def)
  have r: "quat_norm (versor_rotation v (versor_cartesian pos)) = 1"
    using v cartesian_dot_self by (rule rotation_unit)
  have "quat_norm (drag_quaternion v q pos) = quat_norm q * 1"
    unfolding drag_quaternion_def Let_def multiply_norm r ..
  also have "quat_norm q = 1"
    by (simp add: q quat_norm_def)
  finally have "quat_norm (drag_quaternion v q pos) = 1"
    by simp
  with r eps show ?thesis
    by simp
qed

theorem drag_quaternion_unit_witness:
  "v0 (run (\<lambda>r. Some) \<lparr>rotation = (0, 0, 0), v0 = None, r0 = None, q0 = None\<rparr>
         [MouseDown 0 0, MouseMove 30 0]) = Some (1, 0, 0)
   \<and> quat_norm (drag_quaternion (1, 0, 0) (1, 0, 0, 0) (90, 0)) = 1"
proof -
  let ?st = "\<lparr>rotation = (0, 0, 0), v0 = None, r0 = None, q0 = None\<rparr>"
  let ?evs = "[MouseDown 0 0, MouseMove 30 0]"
  have a: "v0 (run (\<lambda>r. Some) ?st ?evs) = Some (1, 0, 0)"
    by (simp add: handleMouseDown_def handleMouseMove_def versor_cartesian_def Let_def)
  have b: "q0 (run (\<lambda>r. Some) ?st ?evs) = Some (1, 0, 0, 0)"
    by (simp add: handleMouseDown_def handleMouseMove_def versor_cartesian_def Let_def)
  from drag_quaternion_unit [of ?st "\<lambda>r. Some" ?evs "(1, 0, 0)" "(1, 0, 0, 0)" 0 "(90, 0)"] a b
  show ?thesis
    by simp
qed

text \<open>
  The handler by itself, for as long as its variables are kept. Let a press at \<open>xy0\<close>
  invert to the coordinate \<open>a\<close> under the rotation of that moment, and let the rotation
  state have any value \<open>live\<close> afterwards. A move to \<open>xy\<close> is inverted with the rotation of
  the press, not with \<open>live\<close>: if that inversion fails the state stays as it is; if it
  gives \<open>b\<close>, the new rotation is the rotation of the press plus, component by component,
  the Euler angles of the quaternion of the two vectors of \<open>a\<close> and \<open>b\<close>.
\<close>

lemma drag_move_against_reference:
  assumes down: "invert (rotation st) xy0 = Some a"
    and st1: "st1 = (handleMouseDown invert st xy0)\<lparr>rotation := live\<rparr>"
  shows "(invert (rotation st) xy = None \<longrightarrow> handleMouseMove invert st1 xy = st1)
       \<and> (\<forall>b. invert (rotation st) xy = Some b \<longrightarrow>
            handleMouseMove invert st1 xy =
              st1\<lparr>rotation :=
                (case (rotation st,
                       versor_toEuler (versor_rotation (versor_cartesian a) (versor_cartesian b))) of
                   ((r1, r2, r3), (e1, e2, e3)) \<Rightarrow> (r1 + e1, r2 + e2, r3 + e3))\<rparr>)
       \<and> v0 st1 = Some (versor_cartesian a) \<and> r0 st1 = Some (rotation st)"
proof -
  from down have pressed: "handleMouseDown invert st xy0 =
      st\<lparr>v0 := Some (versor_cartesian a), r0 := Some (rotation st), q0 := Some (1, 0, 0, 0)\<rparr>"
    by (simp add: handleMouseDown_def)
  have anchor: "v0 st1 = Some (versor_cartesian a)" "r0 st1 = Some (rotation st)"
    "q0 st1 = Some (1, 0, 0, 0)"
    by (simp_all add: st1 pressed)
  have failed: "invert (rotation st) xy = None \<longrightarrow> handleMouseMove invert st1 xy = st1"
    by (simp add: handleMouseMove_def anchor)
  have moved: "\<forall>b. invert (rotation st) xy = Some b \<longrightarrow>
            handleMouseMove invert st1 xy =
              st1\<lparr>rotation :=
                (case (rotation st,
                       versor_toEuler (versor_rotation (versor_cartesian a) (versor_cartesian b))) of
                   ((r1, r2, r3), (e1, e2, e3)) \<Rightarrow> (r1 + e1, r2 + e2, r3 + e3))\<rparr>"
    by (simp add: handleMouseMove_def anchor drag_quaternion_def Let_def multiply_one_left
        split: prod.splits)
  from failed moved anchor(1,2) show ?thesis
    by (intro conjI)
qed


lemma pointer_move_failed:
  assumes "v0 st = Some v" "r0 st = Some r" "q0 st = Some q" "invert r xy = None"
  shows "pointer_move invert st xy = st"
  using assms by (simp add: pointer_move_def move_calls_setRotation_def handleMouseMove_def)

lemma pointer_move_resets_drag:
  assumes "v0 st = Some v" "r0 st = Some r" "q0 st = Some q" "invert r xy = Some pos"
  shows "pointer_move invert st xy =
     \<lparr>rotation =
        (case (r, versor_toEuler (versor_multiply q (versor_rotation v (versor_cartesian pos)))) of
           ((r1, r2, r3), (e1, e2, e3)) \<Rightarrow> (r1 + e1, r2 + e2, r3 + e3)),
      v0 = None, r0 = None, q0 = None\<rparr>"
  using assms
  by (simp add: pointer_move_def move_calls_setRotation_def handleMouseMove_def
      drag_quaternion_def Let_def split: prod.splits)









section \<open>The branches of the quaternion construction\<close>

lemma rotation_by_divisor:
  "versor_rotation a b =
     (rotation_divisor a b / 2,
      fst (versor_cross a b) / rotation_divisor a b,
      fst (snd (versor_cross a b)) / rotation_divisor a b,
      snd (snd (versor_cross a b)) / rotation_divisor a b)"
proof -
  have half: "sqrt (s / 2) = sqrt (2 * s) / 2" for s :: real
  proof -
    have "sqrt (2 * s) / 2 = sqrt (2 * s) / sqrt 4" by simp
    also have "\<dots> = sqrt (2 * s / 4)" by (simp only: real_sqrt_divide)
    finally show ?thesis by simp
  qed
  show ?thesis
    by (simp add: versor_rotation_def rotation_divisor_def Let_def half)
qed

text \<open>
  C8. For every pair of vectors, unit vectors and nearly antipodal ones among them, the
  branch that \<^verbatim>\<open>versor.rotation\<close> takes divides by a number that is at least \<open>sqrt 2\<close>;
  no square root, division or arc sine of \<^verbatim>\<open>versor.rotation\<close> followed by
  \<^verbatim>\<open>versor.toEuler\<close> is undefined, so that the result has no \<^verbatim>\<open>NaN\<close> component.
\<close>

theorem rotation_never_nan:
  "sqrt 2 \<le> rotation_divisor a b
   \<and> rotation_checked a b = Some (versor_rotation a b)
   \<and> toEuler_checked (versor_rotation a b) = Some (versor_toEuler (versor_rotation a b))"
proof -
  have div: "sqrt 2 \<le> rotation_divisor a b"
    by (simp add: rotation_divisor_def Let_def)
  have rot: "rotation_checked a b = Some (versor_rotation a b)"
  proof (cases "versor_dot a b < 0")
    case True
    then have "0 < sqrt (2 * (1 - versor_dot a b))" by simp
    with True show ?thesis
      by (simp add: rotation_checked_def versor_rotation_def Let_def js_sqrt_def js_div_def)
  next
    case False
    then have "0 < sqrt (2 * (1 + versor_dot a b))" by simp
    with False show ?thesis
      by (simp add: rotation_checked_def versor_rotation_def Let_def js_sqrt_def js_div_def)
  qed
  have eul: "toEuler_checked q = Some (versor_toEuler q)" for q
    by (cases q) (simp add: js_asin_def)
  from div rot eul show ?thesis by simp
qed

section \<open>What the two branches of the construction do\<close>

text \<open>
  A quaternion \<open>(s / 2, (a \<times> b) / s)\<close> with \<open>s\<^sup>2 = 2 (1 + e)\<close> and \<open>e\<^sup>2 = (a \<cdot> b)\<^sup>2\<close> takes
  the unit vector \<open>a\<close> to \<open>b + (e - a \<cdot> b) a\<close>. The branch for a dot product that is
  not negative has \<open>e = a \<cdot> b\<close> and takes \<open>a\<close> to \<open>b\<close>. The branch for a negative dot product
  has \<open>e = - (a \<cdot> b)\<close> and takes \<open>a\<close> to \<open>b - 2 (a \<cdot> b) a\<close>, which is never \<open>b\<close>.
\<close>

lemma quat_rotate_components:
  "quat_rotate (w, x, y, z) (a0, a1, a2) =
     ((w * w + x * x - y * y - z * z) * a0 + 2 * (x * y - w * z) * a1 + 2 * (x * z + w * y) * a2,
      2 * (x * y + w * z) * a0 + (w * w - x * x + y * y - z * z) * a1 + 2 * (y * z - w * x) * a2,
      2 * (x * z - w * y) * a0 + 2 * (y * z + w * x) * a1 + (w * w - x * x - y * y + z * z) * a2)"
  by (simp add: quat_rotate_def quat_conj_def algebra_simps)

lemma rotate_by_scaled_cross:
  fixes s :: real
  assumes a: "a0 * a0 + a1 * a1 + a2 * a2 = 1"
    and b: "b0 * b0 + b1 * b1 + b2 * b2 = 1"
    and s: "s * s = 2 * (1 + e)" "s \<noteq> 0"
    and e: "e * e = (a0 * b0 + a1 * b1 + a2 * b2) * (a0 * b0 + a1 * b1 + a2 * b2)"
  shows "quat_rotate (s / 2, (a1 * b2 - a2 * b1) / s, (a2 * b0 - a0 * b2) / s, (a0 * b1 - a1 * b0) / s)
           (a0, a1, a2) =
         (b0 + (e - (a0 * b0 + a1 * b1 + a2 * b2)) * a0,
          b1 + (e - (a0 * b0 + a1 * b1 + a2 * b2)) * a1,
          b2 + (e - (a0 * b0 + a1 * b1 + a2 * b2)) * a2)"
proof -
  define d where "d = a0 * b0 + a1 * b1 + a2 * b2"
  define c0 where "c0 = a1 * b2 - a2 * b1"
  define c1 where "c1 = a2 * b0 - a0 * b2"
  define c2 where "c2 = a0 * b1 - a1 * b0"
  have s2: "s * s = 2 * (1 + e)" using s(1) .
  have ee: "e * e = d * d" using e by (simp add: d_def)
  have ca: "c0 * a0 + c1 * a1 + c2 * a2 = 0"
    by (simp add: c0_def c1_def c2_def algebra_simps)
  have cc: "c0 * c0 + c1 * c1 + c2 * c2 = 1 - d * d"
  proof -
    have "c0 * c0 + c1 * c1 + c2 * c2 + d * d
            = (a0 * a0 + a1 * a1 + a2 * a2) * (b0 * b0 + b1 * b1 + b2 * b2)"
      by (simp add: c0_def c1_def c2_def d_def algebra_simps)
    with a b show ?thesis by simp
  qed
  have x0: "c1 * a2 - c2 * a1 = b0 * (a0 * a0 + a1 * a1 + a2 * a2) - d * a0"
    by (simp add: c0_def c1_def c2_def d_def algebra_simps)
  have x1: "c2 * a0 - c0 * a2 = b1 * (a0 * a0 + a1 * a1 + a2 * a2) - d * a1"
    by (simp add: c0_def c1_def c2_def d_def algebra_simps)
  have x2: "c0 * a1 - c1 * a0 = b2 * (a0 * a0 + a1 * a1 + a2 * a2) - d * a2"
    by (simp add: c0_def c1_def c2_def d_def algebra_simps)
  have scal: "(s / 2) * (s / 2) - (c0 * c0 + c1 * c1 + c2 * c2) / (s * s) = e"
  proof -
    have h1: "(s / 2) * (s / 2) = (1 + e) / 2" using s2 by simp
    have h2: "(c0 * c0 + c1 * c1 + c2 * c2) / (s * s) = (1 - e) / 2"
    proof -
      have nz: "1 + e \<noteq> 0"
      proof
        assume "1 + e = 0"
        with s2 have "s * s = 0" by simp
        with s(2) show False by simp
      qed
      have "(1 - e * e) / (2 * (1 + e)) = ((1 - e) * (1 + e)) / (2 * (1 + e))"
        by (simp add: algebra_simps)
      also have "\<dots> = (1 - e) / 2"
        using nz by (rule mult_divide_mult_cancel_right)
      finally show ?thesis
        by (simp only: cc s2 ee)
    qed
    show ?thesis
      unfolding h1 h2 by (simp add: field_simps)
  qed
  have comp: "(w * w + x * x - y * y - z * z) * p0 + 2 * (x * y - w * z) * p1 + 2 * (x * z + w * y) * p2
      = (w * w - (x * x + y * y + z * z)) * p0 + 2 * x * (x * p0 + y * p1 + z * p2)
         + 2 * w * (y * p2 - z * p1)" for w x y z p0 p1 p2 :: real
    by (simp add: algebra_simps)
  have r0: "(s / 2 * (s / 2) + c0 / s * (c0 / s) - c1 / s * (c1 / s) - c2 / s * (c2 / s)) * a0
      + 2 * (c0 / s * (c1 / s) - s / 2 * (c2 / s)) * a1 + 2 * (c0 / s * (c2 / s) + s / 2 * (c1 / s)) * a2 = b0 + (e - d) * a0"
  proof -
    have "(s / 2 * (s / 2) + c0 / s * (c0 / s) - c1 / s * (c1 / s) - c2 / s * (c2 / s)) * a0
      + 2 * (c0 / s * (c1 / s) - s / 2 * (c2 / s)) * a1 + 2 * (c0 / s * (c2 / s) + s / 2 * (c1 / s)) * a2
      = ((s / 2) * (s / 2) - (c0 * c0 + c1 * c1 + c2 * c2) / (s * s)) * a0
        + 2 * c0 * (c0 * a0 + c1 * a1 + c2 * a2) / (s * s)
        + (c1 * a2 - c2 * a1)"
      using s(2) by (simp add: field_simps)
    also have "\<dots> = e * a0 + (b0 - d * a0)"
      unfolding scal ca x0 a by simp
    finally show ?thesis by (simp add: algebra_simps)
  qed
  have r1: "2 * (c0 / s * (c1 / s) + s / 2 * (c2 / s)) * a0
      + (s / 2 * (s / 2) - c0 / s * (c0 / s) + c1 / s * (c1 / s) - c2 / s * (c2 / s)) * a1
      + 2 * (c1 / s * (c2 / s) - s / 2 * (c0 / s)) * a2 = b1 + (e - d) * a1"
  proof -
    have "2 * (c0 / s * (c1 / s) + s / 2 * (c2 / s)) * a0
      + (s / 2 * (s / 2) - c0 / s * (c0 / s) + c1 / s * (c1 / s) - c2 / s * (c2 / s)) * a1
      + 2 * (c1 / s * (c2 / s) - s / 2 * (c0 / s)) * a2
      = ((s / 2) * (s / 2) - (c0 * c0 + c1 * c1 + c2 * c2) / (s * s)) * a1
        + 2 * c1 * (c0 * a0 + c1 * a1 + c2 * a2) / (s * s)
        + (c2 * a0 - c0 * a2)"
      using s(2) by (simp add: field_simps)
    also have "\<dots> = e * a1 + (b1 - d * a1)"
      unfolding scal ca x1 a by simp
    finally show ?thesis by (simp add: algebra_simps)
  qed
  have r2: "2 * (c0 / s * (c2 / s) - s / 2 * (c1 / s)) * a0
      + 2 * (c1 / s * (c2 / s) + s / 2 * (c0 / s)) * a1
      + (s / 2 * (s / 2) - c0 / s * (c0 / s) - c1 / s * (c1 / s) + c2 / s * (c2 / s)) * a2 = b2 + (e - d) * a2"
  proof -
    have "2 * (c0 / s * (c2 / s) - s / 2 * (c1 / s)) * a0
      + 2 * (c1 / s * (c2 / s) + s / 2 * (c0 / s)) * a1
      + (s / 2 * (s / 2) - c0 / s * (c0 / s) - c1 / s * (c1 / s) + c2 / s * (c2 / s)) * a2
      = ((s / 2) * (s / 2) - (c0 * c0 + c1 * c1 + c2 * c2) / (s * s)) * a2
        + 2 * c2 * (c0 * a0 + c1 * a1 + c2 * a2) / (s * s)
        + (c0 * a1 - c1 * a0)"
      using s(2) by (simp add: field_simps)
    also have "\<dots> = e * a2 + (b2 - d * a2)"
      unfolding scal ca x2 a by simp
    finally show ?thesis by (simp add: algebra_simps)
  qed
  show ?thesis
    unfolding quat_rotate_components c0_def [symmetric] c1_def [symmetric] c2_def [symmetric]
      d_def [symmetric]
    using r0 r1 r2 by simp
qed


lemma rotation_maps_when_dot_nonneg:
  assumes a: "versor_dot a a = 1" and b: "versor_dot b b = 1" and d: "0 \<le> versor_dot a b"
  shows "quat_rotate (versor_rotation a b) a = b"
proof -
  obtain a0 a1 a2 where A: "a = (a0, a1, a2)" by (cases a)
  obtain b0 b1 b2 where B: "b = (b0, b1, b2)" by (cases b)
  define s where "s = sqrt (2 * (1 + (a0 * b0 + a1 * b1 + a2 * b2)))"
  from d have nn: "0 \<le> a0 * b0 + a1 * b1 + a2 * b2"
    by (simp add: A B)
  then have ss: "s * s = 2 * (1 + (a0 * b0 + a1 * b1 + a2 * b2))"
    by (simp add: s_def)
  from nn have s0: "s \<noteq> 0"
    by (simp add: s_def)
  have div: "rotation_divisor a b = s"
    using nn by (simp add: rotation_divisor_def Let_def A B s_def)
  have "versor_rotation a b =
      (s / 2, (a1 * b2 - a2 * b1) / s, (a2 * b0 - a0 * b2) / s, (a0 * b1 - a1 * b0) / s)"
    unfolding rotation_by_divisor div by (simp add: A B)
  moreover have "quat_rotate
      (s / 2, (a1 * b2 - a2 * b1) / s, (a2 * b0 - a0 * b2) / s, (a0 * b1 - a1 * b0) / s)
      (a0, a1, a2) = (b0, b1, b2)"
    using rotate_by_scaled_cross [of a0 a1 a2 b0 b1 b2 s "a0 * b0 + a1 * b1 + a2 * b2"] a b ss s0
    by (simp add: A B)
  ultimately show ?thesis
    by (simp add: A B)
qed

lemma rotation_mirrors_when_dot_negative:
  assumes a: "versor_dot a a = 1" and b: "versor_dot b b = 1" and d: "versor_dot a b < 0"
  shows "quat_rotate (versor_rotation a b) a =
           (fst b - 2 * versor_dot a b * fst a,
            fst (snd b) - 2 * versor_dot a b * fst (snd a),
            snd (snd b) - 2 * versor_dot a b * snd (snd a))"
    and "quat_rotate (versor_rotation a b) a \<noteq> b"
proof -
  obtain a0 a1 a2 where A: "a = (a0, a1, a2)" by (cases a)
  obtain b0 b1 b2 where B: "b = (b0, b1, b2)" by (cases b)
  define dd where "dd = a0 * b0 + a1 * b1 + a2 * b2"
  define s where "s = sqrt (2 * (1 - dd))"
  from d have neg: "dd < 0"
    by (simp add: A B dd_def)
  then have ss: "s * s = 2 * (1 + - dd)"
    by (simp add: s_def)
  from neg have s0: "s \<noteq> 0"
    by (simp add: s_def)
  have div: "rotation_divisor a b = s"
    using neg by (simp add: rotation_divisor_def Let_def A B s_def dd_def)
  have rot: "versor_rotation a b =
      (s / 2, (a1 * b2 - a2 * b1) / s, (a2 * b0 - a0 * b2) / s, (a0 * b1 - a1 * b0) / s)"
    unfolding rotation_by_divisor div by (simp add: A B)
  have a': "a0 * a0 + a1 * a1 + a2 * a2 = 1"
    using a by (simp add: A)
  have b': "b0 * b0 + b1 * b1 + b2 * b2 = 1"
    using b by (simp add: B)
  have e: "- dd * - dd = (a0 * b0 + a1 * b1 + a2 * b2) * (a0 * b0 + a1 * b1 + a2 * b2)"
    unfolding dd_def [symmetric] by simp
  note rotate_by_scaled_cross [OF a' b' ss s0 e]
  with rot show m: "quat_rotate (versor_rotation a b) a =
           (fst b - 2 * versor_dot a b * fst a,
            fst (snd b) - 2 * versor_dot a b * fst (snd a),
            snd (snd b) - 2 * versor_dot a b * snd (snd a))"
    by (simp add: A B dd_def algebra_simps)
  show "quat_rotate (versor_rotation a b) a \<noteq> b"
  proof
    assume "quat_rotate (versor_rotation a b) a = b"
    with m neg have "a0 = 0 \<and> a1 = 0 \<and> a2 = 0"
      by (simp add: A B dd_def)
    with a show False
      by (simp add: A)
  qed
qed

text \<open>
  C2. The claim is that \<^verbatim>\<open>versor.rotation(v0, v1)\<close> is the rotation taking \<open>v0\<close> to \<open>v1\<close>
  for all unit vectors. For the unit vectors \<open>(1, 0, 0)\<close> and \<open>(-7/25, 24/25, 0)\<close>, whose
  dot product is negative, the function returns \<open>(4/5, 0, 0, 3/5)\<close>, and this quaternion
  takes \<open>(1, 0, 0)\<close> to \<open>(7/25, 24/25, 0)\<close>: the mirror image of the target. The quaternion
  \<open>(3/5, 0, 0, 4/5)\<close> is the one that takes the first vector to the second.
\<close>

theorem rotation_negative_dot_misses_target:
  "versor_dot (1, 0, 0) (1, 0, 0) = 1
   \<and> versor_dot (- 7 / 25, 24 / 25, 0) (- 7 / 25, 24 / 25, 0) = 1
   \<and> versor_dot (1, 0, 0) (- 7 / 25, 24 / 25, 0) < 0
   \<and> versor_rotation (1, 0, 0) (- 7 / 25, 24 / 25, 0) = (4 / 5, 0, 0, 3 / 5)
   \<and> quat_rotate (versor_rotation (1, 0, 0) (- 7 / 25, 24 / 25, 0)) (1, 0, 0) = (7 / 25, 24 / 25, 0)
   \<and> quat_rotate (versor_rotation (1, 0, 0) (- 7 / 25, 24 / 25, 0)) (1, 0, 0) \<noteq> (- 7 / 25, 24 / 25, 0)
   \<and> quat_rotate (3 / 5, 0, 0, 4 / 5) (1, 0, 0) = (- 7 / 25, 24 / 25, 0)"
proof -
  have s1: "sqrt (16 / 25) = 4 / 5"
    by (rule real_sqrt_unique) (simp_all add: power2_eq_square)
  have s2: "sqrt (64 / 25) = 8 / 5"
    by (rule real_sqrt_unique) (simp_all add: power2_eq_square)
  have r: "versor_rotation (1, 0, 0) (- 7 / 25, 24 / 25, 0) = (4 / 5, 0, 0, 3 / 5)"
    by (simp add: versor_rotation_def Let_def s1 s2)
  show ?thesis
    unfolding r by (simp add: quat_rotate_def quat_conj_def)
qed

section \<open>Hover\<close>

text \<open>The loop returns the first supplier of the list that passes its test.\<close>

lemma hover_find_eq_find: "hover_find proj x y ss = List.find (hover_hit proj x y) ss"
  by (induction ss) (simp_all add: hover_hit_def pixel_distance_def split: option.splits)

lemma sqrt_less_12: "sqrt a < 12 \<longleftrightarrow> a < 144"
proof -
  have "sqrt a < sqrt 144 \<longleftrightarrow> a < 144"
    by (rule real_sqrt_less_iff)
  moreover have "sqrt 144 = (12::real)"
    by (rule real_sqrt_unique) simp_all
  ultimately show ?thesis by simp
qed

lemma sqrt_eq_12: "sqrt 144 = (12::real)"
  by (rule real_sqrt_unique) simp_all

text \<open>
  C4, as the code has it. For every pointer position and every projection, the tooltip
  is empty exactly when no supplier has a projected position (one that is not
  \<^verbatim>\<open>null\<close>) strictly less than 12 pixels from the pointer; a supplier is shown exactly
  when it is the first one in the order of the dataset with such a position, nearest or
  not; and when exactly one supplier has such a position, that supplier is shown. A marker
  at 12 pixels exactly is a miss.
\<close>

theorem hover_first_within_threshold:
  "(hover_find proj x y ss = None \<longleftrightarrow> (\<forall>s \<in> set ss. \<not> hover_hit proj x y s))
   \<and> (\<forall>s. hover_find proj x y ss = Some s \<longleftrightarrow>
         (\<exists>i < length ss. ss ! i = s \<and> hover_hit proj x y s
            \<and> (\<forall>j < i. \<not> hover_hit proj x y (ss ! j))))
   \<and> (\<forall>s \<in> set ss. hover_hit proj x y s
         \<and> (\<forall>s' \<in> set ss. hover_hit proj x y s' \<longrightarrow> s' = s)
         \<longrightarrow> hover_find proj x y ss = Some s)"
proof (intro conjI allI ballI impI)
  show "hover_find proj x y ss = None \<longleftrightarrow> (\<forall>s \<in> set ss. \<not> hover_hit proj x y s)"
    by (auto simp: hover_find_eq_find find_None_iff)
next
  fix s
  show "hover_find proj x y ss = Some s \<longleftrightarrow>
         (\<exists>i < length ss. ss ! i = s \<and> hover_hit proj x y s
            \<and> (\<forall>j < i. \<not> hover_hit proj x y (ss ! j)))"
    unfolding hover_find_eq_find find_Some_iff by auto
next
  fix s
  assume s: "s \<in> set ss"
    and only: "hover_hit proj x y s \<and> (\<forall>s' \<in> set ss. hover_hit proj x y s' \<longrightarrow> s' = s)"
  from s only have "List.find (hover_hit proj x y) ss \<noteq> None"
    by (auto simp: find_None_iff)
  then obtain s' where s': "List.find (hover_hit proj x y) ss = Some s'"
    by auto
  then have "s' \<in> set ss" and "hover_hit proj x y s'"
    by (auto simp: find_Some_iff)
  with only have "s' = s" by simp
  with s' show "hover_find proj x y ss = Some s"
    by (simp add: hover_find_eq_find)
qed

theorem hover_first_within_threshold_witness:
  "handleHover (map_of [((121.4737, 31.2304), (100, 100))]) 105 100 = Some (SUPPLY_CHAIN_DATA ! 0)"
proof -
  let ?proj = "map_of [((121.4737::real, 31.2304::real), (100::real, 100::real))]"
  let ?s = "SUPPLY_CHAIN_DATA ! 0"
  have mem: "?s \<in> set SUPPLY_CHAIN_DATA"
    by (simp add: SUPPLY_CHAIN_DATA_def)
  have hit: "hover_hit ?proj 105 100 ?s"
    by (simp add: hover_hit_def pixel_distance_def SUPPLY_CHAIN_DATA_def sqrt_less_12)
  have only: "\<forall>s' \<in> set SUPPLY_CHAIN_DATA. hover_hit ?proj 105 100 s' \<longrightarrow> s' = ?s"
    by (simp add: hover_hit_def SUPPLY_CHAIN_DATA_def)
  from hover_first_within_threshold [of ?proj 105 100 SUPPLY_CHAIN_DATA] mem hit only
  have "hover_find ?proj 105 100 SUPPLY_CHAIN_DATA = Some ?s"
    by blast
  then show ?thesis
    by (simp add: handleHover_def)
qed

text \<open>
  The claim as stated (the nearest marker, and a hit at a distance of at most 12) fails:
  with Shanghai projected to \<open>(100, 100)\<close> and Tokyo to \<open>(110, 100)\<close>, the pointer at
  \<open>(109, 100)\<close> is 9 pixels from the first and 1 pixel from the second, and the first is
  shown; with the pointer at \<open>(112, 100)\<close>, 12 pixels from the only projected marker,
  nothing is shown.
\<close>

theorem hover_counterexample:
  "handleHover (map_of [((121.4737, 31.2304), (100, 100)), ((139.6503, 35.6762), (110, 100))]) 109 100
     = Some (SUPPLY_CHAIN_DATA ! 0)
   \<and> pixel_distance (100, 100) 109 100 = 9
   \<and> pixel_distance (110, 100) 109 100 = 1
   \<and> handleHover (map_of [((121.4737, 31.2304), (100, 100))]) 112 100 = None
   \<and> pixel_distance (100, 100) 112 100 = 12"
proof -
  have s81: "sqrt 81 = (9::real)" by (rule real_sqrt_unique) simp_all
  have a: "handleHover (map_of [((121.4737, 31.2304), (100, 100)), ((139.6503, 35.6762), (110, 100))]) 109 100
     = Some (SUPPLY_CHAIN_DATA ! 0)"
    by (simp add: handleHover_def SUPPLY_CHAIN_DATA_def sqrt_less_12)
  have b: "handleHover (map_of [((121.4737, 31.2304), (100, 100))]) 112 100 = None"
    by (simp add: handleHover_def SUPPLY_CHAIN_DATA_def sqrt_less_12)
  have c: "pixel_distance (100, 100) 109 100 = 9"
    by (simp add: pixel_distance_def s81)
  have d: "pixel_distance (110, 100) 109 100 = 1"
    by (simp add: pixel_distance_def)
  have e: "pixel_distance (100, 100) 112 100 = 12"
    by (simp add: pixel_distance_def sqrt_eq_12)
  show ?thesis
    by (intro conjI) (rule a c d b e)+
qed

section \<open>Particles\<close>

lemma advance_range:
  "0 \<le> p \<Longrightarrow> p \<le> 1 \<Longrightarrow> 0 \<le> particle_advance p \<and> particle_advance p \<le> 1"
  by (simp add: particle_advance_def Let_def)

lemma update_particles_range:
  "\<forall>p \<in> set ps. 0 \<le> p \<and> p \<le> 1 \<Longrightarrow> \<forall>p \<in> set (update_particles ps). 0 \<le> p \<and> p \<le> 1"
  by (auto simp: update_particles_def dest: advance_range)

lemma length_update_particles: "length (update_particles ps) = length ps"
  by (simp add: update_particles_def)

text \<open>
  C7, as the code has it. If every particle starts in \<open>[0, 1)\<close>, then after any number
  of updates the array has the same length and every particle is in \<open>[0, 1]\<close>: the upper
  end is included, since a sum that is exactly 1 is not greater than 1 and is kept.
\<close>

theorem particles_stay_in_closed_unit_interval:
  assumes "\<forall>p \<in> set ps. 0 \<le> p \<and> p < 1"
  shows "length ((update_particles ^^ n) ps) = length ps
       \<and> (\<forall>p \<in> set ((update_particles ^^ n) ps). 0 \<le> p \<and> p \<le> 1)"
proof (induction n)
  case 0
  from assms show ?case by auto
next
  case (Suc n)
  have "length (update_particles ((update_particles ^^ n) ps)) = length ps"
    using Suc by (simp add: length_update_particles)
  moreover have "\<forall>p \<in> set (update_particles ((update_particles ^^ n) ps)). 0 \<le> p \<and> p \<le> 1"
    using Suc by (intro update_particles_range) simp
  ultimately show ?case by simp
qed

theorem particles_stay_in_closed_unit_interval_witness:
  "(update_particles ^^ 2) [0.997, 0.5] = [0, 0.506]"
proof -
  have "\<forall>p \<in> set [0.997, 0.5::real]. 0 \<le> p \<and> p < 1" by simp
  from particles_stay_in_closed_unit_interval [OF this, of 2]
  have "length ((update_particles ^^ 2) [0.997, 0.5]) = 2" by simp
  then show ?thesis
    by (simp add: numeral_2_eq_2 update_particles_def particle_advance_def Let_def)
qed

text \<open>
  The claim as stated (\<open>[0, 1)\<close> is kept) fails at the particle \<open>0.997\<close>: one update
  makes it \<open>1\<close>.
\<close>

theorem particle_reaches_one:
  "(0::real) \<le> 0.997 \<and> (0.997::real) < 1 \<and> update_particles [0.997] = [1]
   \<and> \<not> particle_advance 0.997 < 1"
  by (simp add: update_particles_def particle_advance_def Let_def)


section \<open>The sampling loop\<close>

text \<open>
  The model of binary64 addition: \<open>round53\<close> keeps numbers below \<open>2\<^sup>5\<^sup>3\<close>, leaves a
  significand of 53 bits, is within half a unit of the last place that it keeps, and on
  a tie leaves an even significand. The step is the binary64 number nearest to \<open>0.02\<close>.
\<close>

lemma step_literal:
  "2 ^ 52 \<le> ticks_step \<and> ticks_step < 2 ^ 53
   \<and> \<bar>ticks_value ticks_step - 0.02\<bar> * 2 ^ 58 \<le> 1 / 2"
  by (simp add: ticks_step_def ticks_value_def abs_if field_simps)

lemma round53_small: "n < 2 ^ 53 \<Longrightarrow> round53 n = n"
  by (simp add: round53_def excess_bits.simps)

lemma excess_bits_significand:
  "n div 2 ^ excess_bits n < 2 ^ 53 \<and> (0 < excess_bits n \<longrightarrow> 2 ^ 52 \<le> n div 2 ^ excess_bits n)"
proof (induction n rule: excess_bits.induct)
  case (1 n)
  show ?case
  proof (cases "n < 2 ^ 53")
    case True
    then have "excess_bits n = 0"
      by (subst excess_bits.simps) simp
    with True show ?thesis by simp
  next
    case False
    then have e: "excess_bits n = Suc (excess_bits (n div 2))"
      by (subst excess_bits.simps) simp
    have d: "n div 2 ^ Suc k = n div 2 div 2 ^ k" for k
      by (simp add: div_mult2_eq)
    from False have ih: "n div 2 div 2 ^ excess_bits (n div 2) < 2 ^ 53"
      "0 < excess_bits (n div 2) \<Longrightarrow> 2 ^ 52 \<le> n div 2 div 2 ^ excess_bits (n div 2)"
      using "1.IH" by simp_all
    have low: "2 ^ 52 \<le> n div 2 div 2 ^ excess_bits (n div 2)"
    proof (cases "excess_bits (n div 2) = 0")
      case True
      from False have "(2::nat) ^ 52 \<le> n div 2" by simp
      with True show ?thesis by simp
    next
      case False
      then have "0 < excess_bits (n div 2)" by simp
      then show ?thesis by (rule ih(2))
    qed
    from ih(1) low show ?thesis
      unfolding e d by simp
  qed
qed

lemma half_up: "L < K \<Longrightarrow> K \<le> 2 * L \<Longrightarrow> 2 * \<bar>K - L\<bar> \<le> K" for K L :: int
  by (simp add: abs_if)

lemma half_down: "0 \<le> L \<Longrightarrow> 2 * L \<le> K \<Longrightarrow> 2 * \<bar>- L\<bar> \<le> K" for K L :: int
  by (simp add: abs_if)

lemma round53_nearest:
  "2 ^ excess_bits n dvd round53 n
   \<and> 2 * \<bar>int (round53 n) - int n\<bar> \<le> 2 ^ excess_bits n"
proof -
  define k where "k = excess_bits n"
  define hi where "hi = n div 2 ^ k"
  define lo where "lo = n mod 2 ^ k"
  have "n = hi * 2 ^ k + lo"
    unfolding hi_def lo_def by (rule div_mult_mod_eq [symmetric])
  then have n: "int n = int hi * 2 ^ k + int lo"
    by simp
  have "lo < 2 ^ k"
    by (simp add: lo_def)
  then have lo: "int lo < 2 ^ k"
    by (metis of_nat_less_iff of_nat_numeral of_nat_power)
  show ?thesis
  proof (cases "2 ^ k < 2 * lo \<or> (2 * lo = 2 ^ k \<and> odd hi)")
    case True
    then have r: "round53 n = (hi + 1) * 2 ^ k"
      by (simp add: round53_def Let_def k_def hi_def lo_def)
    from True have "(2::nat) ^ k \<le> 2 * lo" by auto
    then have up: "(2::int) ^ k \<le> 2 * int lo"
      by (metis of_nat_le_iff of_nat_mult of_nat_numeral of_nat_power)
    have d: "int (round53 n) - int n = 2 ^ k - int lo"
      by (simp add: r n algebra_simps)
    have a: "2 * \<bar>int (round53 n) - int n\<bar> \<le> 2 ^ k"
      unfolding d using lo up by (rule half_up)
    have b: "2 ^ k dvd round53 n"
      by (simp add: r)
    from b a show ?thesis
      unfolding k_def by (rule conjI)
  next
    case False
    then have r: "round53 n = hi * 2 ^ k"
      by (simp add: round53_def Let_def k_def hi_def lo_def)
    from False have "2 * lo \<le> (2::nat) ^ k" by auto
    then have down: "2 * int lo \<le> (2::int) ^ k"
      by (metis of_nat_le_iff of_nat_mult of_nat_numeral of_nat_power)
    have d: "int (round53 n) - int n = - int lo"
      by (simp add: r n)
    have a: "2 * \<bar>int (round53 n) - int n\<bar> \<le> 2 ^ k"
      unfolding d using of_nat_0_le_iff down by (rule half_down)
    have b: "2 ^ k dvd round53 n"
      by (simp add: r)
    from b a show ?thesis
      unfolding k_def by (rule conjI)
  qed
qed

lemma round53_tie_even:
  assumes "2 * (n mod 2 ^ excess_bits n) = 2 ^ excess_bits n"
  shows "even (round53 n div 2 ^ excess_bits n)"
proof (cases "odd (n div 2 ^ excess_bits n)")
  case True
  with assms have "round53 n = (n div 2 ^ excess_bits n + 1) * 2 ^ excess_bits n"
    by (simp add: round53_def Let_def)
  with True show ?thesis by simp
next
  case False
  with assms have "round53 n = n div 2 ^ excess_bits n * 2 ^ excess_bits n"
    by (simp add: round53_def Let_def)
  with False show ?thesis by simp
qed

lemma arc_loop_value:
  "arc_loop f 0 [] = Some (map (\<lambda>t. f (ticks_value t)) sample_ticks)"
  by (simp add: arc_loop.simps double_add_def round53_def Let_def excess_bits.simps
      ticks_one_def ticks_step_def sample_ticks_def)

lemma sample_ticks_sorted: "sorted_wrt (<) sample_ticks"
  by (simp add: sample_ticks_def)

text \<open>
  C6. The claim is 51 samples, the last one at the target. The loop returns, with
  50 samples: they are the interpolator at 50 strictly increasing values of \<open>t\<close>, the
  first at \<open>t = 0\<close> and the last at \<open>t = 8827055269646177 / 2\<^sup>5\<^sup>3\<close>, just above \<open>0.98\<close>. The
  next sum is rounded to a number above \<open>1\<close>, so the loop ends without a sample at
  \<open>t = 1\<close>, and the last sample is not the interpolator at the target's end.
\<close>

theorem arc_has_fifty_samples:
  "arcPoints interpolate = Some (map (\<lambda>t. interpolate (ticks_value t)) sample_ticks)
   \<and> length sample_ticks = 50
   \<and> sorted_wrt (<) sample_ticks
   \<and> ticks_value (hd sample_ticks) = 0
   \<and> ticks_value (last sample_ticks) = 8827055269646177 / 2 ^ 53
   \<and> ticks_value (last sample_ticks) < 1
   \<and> ticks_one < double_add (last sample_ticks) ticks_step"
proof -
  have "arcPoints interpolate = Some (map (\<lambda>t. interpolate (ticks_value t)) sample_ticks)"
    by (simp add: arcPoints_def arc_loop_value)
  moreover have "length sample_ticks = 50"
    by (simp add: sample_ticks_def)
  moreover have "ticks_value (hd sample_ticks) = 0"
    by (simp add: sample_ticks_def ticks_value_def)
  moreover have l: "last sample_ticks = 282465768628677664"
    by (simp add: sample_ticks_def)
  moreover have v: "ticks_value 282465768628677664 = 8827055269646177 / 2 ^ 53"
    by (simp add: ticks_value_def)
  moreover have "ticks_value 282465768628677664 < 1"
    by (simp add: ticks_value_def)
  moreover have "ticks_one < double_add 282465768628677664 ticks_step"
    by (simp add: double_add_def round53_def Let_def excess_bits.simps ticks_one_def ticks_step_def)
  ultimately show ?thesis
    using sample_ticks_sorted by simp
qed

section \<open>Angles\<close>

text \<open>
  \<^verbatim>\<open>Math.atan2\<close> returns the angle of a point in \<open>(-\<pi>, \<pi>]\<close>: the point is its distance
  from the origin times the cosine and the sine of that angle, and an angle in that range
  is recovered from a positive multiple of its cosine and sine.
\<close>

lemma atan2_range: "- pi < Math_atan2 y x \<and> Math_atan2 y x \<le> pi"
proof -
  have lo: "- (pi / 2) < arctan (y / x)" and hi: "arctan (y / x) < pi / 2"
    by (rule arctan_lbound arctan_ubound)+
  consider "0 < x" | "x < 0" "0 \<le> y" | "x < 0" "y < 0" | "x = 0"
    by linarith
  then show ?thesis
  proof cases
    case 1
    then have "Math_atan2 y x = arctan (y / x)"
      by (simp add: Math_atan2_def)
    with lo hi pi_gt_zero show ?thesis by linarith
  next
    case 2
    then have "y / x \<le> 0" by (simp add: divide_nonneg_neg)
    then have "arctan (y / x) \<le> 0" by (simp add: arctan_le_zero_iff)
    moreover from 2 have "Math_atan2 y x = arctan (y / x) + pi"
      by (simp add: Math_atan2_def)
    ultimately show ?thesis using lo pi_gt_zero by linarith
  next
    case 3
    then have "0 < y / x" by (simp add: divide_neg_neg)
    then have "0 < arctan (y / x)" by (simp add: zero_less_arctan_iff)
    moreover from 3 have "Math_atan2 y x = arctan (y / x) - pi"
      by (simp add: Math_atan2_def)
    ultimately show ?thesis using hi pi_gt_zero by linarith
  next
    case 4
    then have "Math_atan2 y x = pi / 2 \<or> Math_atan2 y x = - (pi / 2) \<or> Math_atan2 y x = 0"
      by (simp add: Math_atan2_def)
    with pi_gt_zero show ?thesis by linarith
  qed
qed

lemma sqrt_sum_scaled:
  fixes x y :: real
  assumes "x \<noteq> 0"
  shows "sqrt (x\<^sup>2 + y\<^sup>2) = \<bar>x\<bar> * sqrt (1 + (y / x)\<^sup>2)"
proof -
  have "x\<^sup>2 + y\<^sup>2 = x\<^sup>2 * (1 + (y / x)\<^sup>2)"
    using assms by (simp add: field_simps power2_eq_square)
  then show ?thesis
    by (simp add: real_sqrt_mult)
qed

lemma atan2_polar:
  "sqrt (x\<^sup>2 + y\<^sup>2) * cos (Math_atan2 y x) = x \<and> sqrt (x\<^sup>2 + y\<^sup>2) * sin (Math_atan2 y x) = y"
proof -
  define t where "t = y / x"
  define k where "k = sqrt (1 + t\<^sup>2)"
  have "0 < 1 + t\<^sup>2"
    by (simp add: add_pos_nonneg)
  then have k0: "k \<noteq> 0"
    by (simp add: k_def)
  have ca: "cos (arctan t) = 1 / k" and sa: "sin (arctan t) = t / k"
    by (simp_all add: cos_arctan sin_arctan k_def)
  have c1: "u * k * (1 / k) = u" and s1: "u * k * (t / k) = u * t" for u
    using k0 by simp_all
  consider "0 < x" | "x < 0" | "x = 0" "0 < y" | "x = 0" "y < 0" | "x = 0" "y = 0"
    by linarith
  then show ?thesis
  proof cases
    case 1
    then have r: "sqrt (x\<^sup>2 + y\<^sup>2) = x * k"
      using sqrt_sum_scaled [of x y] by (simp add: t_def k_def)
    from 1 have a: "Math_atan2 y x = arctan t"
      by (simp add: Math_atan2_def t_def)
    from 1 have y: "x * t = y" by (simp add: t_def)
    show ?thesis
      unfolding a r ca sa c1 s1 y by simp
  next
    case 2
    then have r: "sqrt (x\<^sup>2 + y\<^sup>2) = - x * k"
      using sqrt_sum_scaled [of x y] by (simp add: t_def k_def)
    from 2 have y: "x * t = y" by (simp add: t_def)
    have "Math_atan2 y x = arctan t + pi \<or> Math_atan2 y x = arctan t - pi"
      using 2 by (simp add: Math_atan2_def t_def)
    then have cs: "cos (Math_atan2 y x) = - (1 / k) \<and> sin (Math_atan2 y x) = - (t / k)"
    proof
      assume "Math_atan2 y x = arctan t + pi"
      then show ?thesis by (simp add: ca sa)
    next
      assume "Math_atan2 y x = arctan t - pi"
      then show ?thesis by (simp add: cos_diff sin_diff ca sa)
    qed
    have "- x * k * - (1 / k) = x * k * (1 / k)"
      by simp
    also have "\<dots> = x"
      by (rule c1)
    finally have n1: "- x * k * - (1 / k) = x" .
    have "- x * k * - (t / k) = x * k * (t / k)"
      by simp
    also have "\<dots> = x * t"
      by (rule s1)
    also have "\<dots> = y"
      by (rule y)
    finally have n2: "- x * k * - (t / k) = y" .
    from cs have cs1: "cos (Math_atan2 y x) = - (1 / k)"
      by (rule conjunct1)
    from cs have cs2: "sin (Math_atan2 y x) = - (t / k)"
      by (rule conjunct2)
    show ?thesis
      unfolding r cs1 cs2 n1 n2 by simp
  next
    case 3
    then show ?thesis by (simp add: Math_atan2_def)
  next
    case 4
    then show ?thesis by (simp add: Math_atan2_def)
  next
    case 5
    then show ?thesis by (simp add: Math_atan2_def)
  qed
qed

lemma sin_neg_left: "sin u < 0" if "- pi < u" "u < 0" for u :: real
proof -
  from that have "0 < - u" and "- u < pi" by linarith+
  then have "0 < sin (- u)" by (rule sin_gt_zero)
  then show ?thesis by simp
qed

lemma angle_unique:
  assumes a: "- pi < a" "a \<le> pi" and l: "- pi < l" "l \<le> pi"
    and c: "cos a = cos l" and s: "sin a = sin l"
  shows "a = l"
proof -
  consider "0 \<le> a" "0 \<le> l" | "a < 0" "l < 0" | "0 \<le> a" "l < 0" | "a < 0" "0 \<le> l"
    by linarith
  then show ?thesis
  proof cases
    case 1
    from 1(1) a(2) 1(2) l(2) c show ?thesis by (rule cos_inj_pi)
  next
    case 2
    have "- a = - l"
    proof (rule cos_inj_pi)
      show "0 \<le> - a" "- a \<le> pi" "0 \<le> - l" "- l \<le> pi"
        using 2 a l by linarith+
      show "cos (- a) = cos (- l)" using c by simp
    qed
    then show ?thesis by simp
  next
    case 3
    from 3(1) a(2) have "0 \<le> sin a" by (rule sin_ge_zero)
    moreover from l(1) 3(2) have "sin l < 0" by (rule sin_neg_left)
    ultimately show ?thesis using s by linarith
  next
    case 4
    from 4(2) l(2) have "0 \<le> sin l" by (rule sin_ge_zero)
    moreover from a(1) 4(1) have "sin a < 0" by (rule sin_neg_left)
    ultimately show ?thesis using s by linarith
  qed
qed

lemma atan2_of_polar:
  assumes "0 < c" and "- pi < l" and "l \<le> pi"
  shows "Math_atan2 (c * sin l) (c * cos l) = l"
proof -
  define a where "a = Math_atan2 (c * sin l) (c * cos l)"
  have "(c * cos l)\<^sup>2 + (c * sin l)\<^sup>2 = c\<^sup>2 * ((cos l)\<^sup>2 + (sin l)\<^sup>2)"
    by (simp only: power_mult_distrib distrib_left)
  also have "\<dots> = c\<^sup>2"
    by (simp add: add.commute)
  finally have "sqrt ((c * cos l)\<^sup>2 + (c * sin l)\<^sup>2) = \<bar>c\<bar>"
    by simp
  with assms(1) have r: "sqrt ((c * cos l)\<^sup>2 + (c * sin l)\<^sup>2) = c"
    by simp
  have p: "c * cos a = c * cos l \<and> c * sin a = c * sin l"
    using atan2_polar [of "c * cos l" "c * sin l"] unfolding r a_def .
  from p assms(1) have ca: "cos a = cos l"
    by (metis mult_cancel_left less_irrefl)
  from p assms(1) have sa: "sin a = sin l"
    by (metis mult_cancel_left less_irrefl)
  have ra: "- pi < a" "a \<le> pi"
    using atan2_range [of "c * sin l" "c * cos l"] unfolding a_def by (rule conjunct1, rule conjunct2)
  from ra assms(2,3) ca sa have "a = l"
    by (rule angle_unique)
  then show ?thesis
    unfolding a_def .
qed

section \<open>The specified projection\<close>

text \<open>Each of the three turns is undone by the opposite turn and keeps the length.\<close>

lemma plane_turn_back:
  fixes c s x y :: real
  assumes "c\<^sup>2 + s\<^sup>2 = 1"
  shows "(x * c - y * s) * c + (x * s + y * c) * s = x"
    and "(x * s + y * c) * c - (x * c - y * s) * s = y"
proof -
  have "(x * c - y * s) * c + (x * s + y * c) * s = x * (c\<^sup>2 + s\<^sup>2)"
    by (simp add: algebra_simps power2_eq_square)
  with assms show "(x * c - y * s) * c + (x * s + y * c) * s = x" by simp
  have "(x * s + y * c) * c - (x * c - y * s) * s = y * (c\<^sup>2 + s\<^sup>2)"
    by (simp add: algebra_simps power2_eq_square)
  with assms show "(x * s + y * c) * c - (x * c - y * s) * s = y" by simp
qed

lemma plane_turn_norm:
  fixes c s x y :: real
  assumes "c\<^sup>2 + s\<^sup>2 = 1"
  shows "(x * c - y * s)\<^sup>2 + (x * s + y * c)\<^sup>2 = x\<^sup>2 + y\<^sup>2"
proof -
  have "(x * c - y * s)\<^sup>2 + (x * s + y * c)\<^sup>2 = (x\<^sup>2 + y\<^sup>2) * (c\<^sup>2 + s\<^sup>2)"
    by (simp add: algebra_simps power2_eq_square)
  with assms show ?thesis by simp
qed

lemma cs1: "(cos a)\<^sup>2 + (sin a)\<^sup>2 = 1" for a :: real
  by (simp add: add.commute)

lemma yaw_back: "yaw (- d) (yaw d v) = v"
  using plane_turn_back [OF cs1]
  by (cases v) (simp add: yaw_def Let_def)

lemma pitch_back: "pitch (- d) (pitch d v) = v"
  using plane_turn_back [OF cs1]
  by (cases v) (simp add: pitch_def Let_def)

lemma roll_back: "roll (- d) (roll d v) = v"
  using plane_turn_back [OF cs1]
  by (cases v) (simp add: roll_def Let_def)

lemma unrotate_rotate: "unrotate_view rot (rotate_view rot v) = v"
  by (cases rot) (simp add: unrotate_view_def rotate_view_def yaw_back pitch_back roll_back)

lemma yaw_norm: "versor_dot (yaw d v) (yaw d v) = versor_dot v v"
  using plane_turn_norm [OF cs1]
  by (cases v) (simp add: yaw_def Let_def power2_eq_square)

lemma pitch_norm: "versor_dot (pitch d v) (pitch d v) = versor_dot v v"
  using plane_turn_norm [OF cs1]
  by (cases v) (simp add: pitch_def Let_def power2_eq_square)

lemma roll_norm: "versor_dot (roll d v) (roll d v) = versor_dot v v"
  using plane_turn_norm [OF cs1]
  by (cases v) (simp add: roll_def Let_def power2_eq_square)

lemma rotate_view_norm: "versor_dot (rotate_view rot v) (rotate_view rot v) = versor_dot v v"
  by (cases rot) (simp add: rotate_view_def yaw_norm pitch_norm roll_norm)

lemma unit_component_bounds:
  fixes x y z :: real
  assumes "x * x + y * y + z * z = 1"
  shows "- 1 \<le> x" "x \<le> 1" "- 1 \<le> z" "z \<le> 1"
proof -
  have sq: "0 \<le> x * x" "0 \<le> y * y" "0 \<le> z * z"
    by simp_all
  with assms have "x\<^sup>2 \<le> 1" and "z\<^sup>2 \<le> 1"
    unfolding power2_eq_square by linarith+
  then have "\<bar>x\<bar> \<le> 1" and "\<bar>z\<bar> \<le> 1"
    by (simp_all add: abs_square_le_1)
  then show "- 1 \<le> x" "x \<le> 1" "- 1 \<le> z" "z \<le> 1"
    by linarith+
qed

lemma deg_less: "a < d \<Longrightarrow> a * pi / 180 < d * pi / 180"
  and deg_le: "a \<le> d \<Longrightarrow> a * pi / 180 \<le> d * pi / 180"
  using pi_gt_zero by (simp_all add: divide_strict_right_mono divide_right_mono)

lemma cartesian_spherical:
  assumes "versor_dot v v = 1"
  shows "versor_cartesian (spherical v) = v"
proof -
  obtain x y z where v: "v = (x, y, z)" by (cases v)
  from assms have n: "x * x + y * y + z * z = 1" by (simp add: v)
  then have zb: "- 1 \<le> z" "z \<le> 1" by (rule unit_component_bounds)+
  have "1 - z\<^sup>2 = x\<^sup>2 + y\<^sup>2"
    using n by (simp add: power2_eq_square)
  then have c: "cos (arcsin z) = sqrt (x\<^sup>2 + y\<^sup>2)"
    using zb by (simp add: cos_arcsin)
  have s: "sin (arcsin z) = z"
    using zb by simp
  have "versor_cartesian (spherical v) =
      (cos (arcsin z) * cos (Math_atan2 y x), cos (arcsin z) * sin (Math_atan2 y x), sin (arcsin z))"
    by (simp add: v spherical_def versor_cartesian_def Let_def)
  also have "\<dots> = (x, y, z)"
    unfolding c s using atan2_polar [of x y] by simp
  finally show ?thesis by (simp add: v)
qed

lemma spherical_cartesian:
  assumes "- 180 < lon" "lon \<le> 180" "- 90 < la" "la < 90"
  shows "spherical (versor_cartesian (lon, la)) = (lon, la)"
proof -
  define l where "l = lon * pi / 180"
  define p where "p = la * pi / 180"
  have l: "- pi < l" "l \<le> pi"
    using deg_less [OF assms(1)] deg_le [OF assms(2)] by (simp_all add: l_def)
  have p: "- (pi / 2) < p" "p < pi / 2"
    using deg_less [OF assms(3)] deg_less [OF assms(4)] by (simp_all add: p_def)
  then have cp: "0 < cos p" by (rule cos_gt_zero_pi)
  have a: "Math_atan2 (cos p * sin l) (cos p * cos l) = l"
    using cp l by (rule atan2_of_polar)
  have b: "arcsin (sin p) = p"
    using p by (intro arcsin_sin) simp_all
  have "spherical (versor_cartesian (lon, la)) =
      (Math_atan2 (cos p * sin l) (cos p * cos l) * 180 / pi, arcsin (sin p) * 180 / pi)"
    by (simp add: spherical_def versor_cartesian_def Let_def l_def p_def)
  also have "\<dots> = (lon, la)"
    unfolding a b by (simp add: l_def p_def)
  finally show ?thesis .
qed

lemma view_angle_depth:
  "(view_angle rot p < 90 \<longleftrightarrow> 0 < fst (rotate_view rot (versor_cartesian p)))
   \<and> (90 < view_angle rot p \<longleftrightarrow> fst (rotate_view rot (versor_cartesian p)) < 0)"
proof -
  obtain x y z where w: "rotate_view rot (versor_cartesian p) = (x, y, z)"
    by (cases "rotate_view rot (versor_cartesian p)")
  have "versor_dot (rotate_view rot (versor_cartesian p)) (rotate_view rot (versor_cartesian p)) = 1"
    by (simp add: rotate_view_norm cartesian_dot_self)
  then have "x * x + y * y + z * z = 1" by (simp add: w)
  then have "- 1 \<le> x" "x \<le> 1" by (rule unit_component_bounds)+
  then have b: "\<bar>x\<bar> \<le> 1" "\<bar>0::real\<bar> \<le> 1" by simp_all
  have lt: "arccos x < pi / 2 \<longleftrightarrow> 0 < x"
    using arccos_less_mono [OF b] by simp
  have gt: "pi / 2 < arccos x \<longleftrightarrow> x < 0"
    using arccos_less_mono [OF b(2) b(1)] by simp
  have "arccos x * 180 / pi < 90 \<longleftrightarrow> arccos x < pi / 2"
    using pi_gt_zero by (simp add: field_simps)
  moreover have "90 < arccos x * 180 / pi \<longleftrightarrow> pi / 2 < arccos x"
    using pi_gt_zero by (simp add: field_simps)
  ultimately show ?thesis
    using lt gt by (simp add: view_angle_def w)
qed

lemma project_visible:
  assumes "rotate_view rot (versor_cartesian p) = (x, y, z)"
  shows "spec_project rot scale c p =
           (if x < 0 then None else Some (fst c + scale * y, snd c - scale * z))"
  by (simp add: spec_project_def assms)

lemma invert_of_projected:
  assumes scale: "0 < scale"
    and w: "rotate_view rot (versor_cartesian p) = (x, y, z)"
    and x: "0 \<le> x"
  shows "spec_invert rot scale c (fst c + scale * y, snd c - scale * z)
           = Some (spherical (versor_cartesian p))"
proof -
  have "versor_dot (rotate_view rot (versor_cartesian p)) (rotate_view rot (versor_cartesian p)) = 1"
    by (simp add: rotate_view_norm cartesian_dot_self)
  then have n: "x * x + y * y + z * z = 1"
    by (simp add: w)
  have right: "(fst c + scale * y - fst c) / scale = y"
    and up: "(snd c - (snd c - scale * z)) / scale = z"
    using scale by simp_all
  have "1 - y\<^sup>2 - z\<^sup>2 = x\<^sup>2"
    using n by (simp add: power2_eq_square)
  then have depth: "sqrt (1 - y\<^sup>2 - z\<^sup>2) = x"
    using x by simp
  have "(fst c + scale * y - fst c)\<^sup>2 + (snd c - scale * z - snd c)\<^sup>2 = scale\<^sup>2 * (y\<^sup>2 + z\<^sup>2)"
    by (simp add: power_mult_distrib distrib_left)
  moreover have "y\<^sup>2 + z\<^sup>2 \<le> 1"
    using n by (simp add: power2_eq_square) (smt (verit) zero_le_square)
  ultimately have "(fst c + scale * y - fst c)\<^sup>2 + (snd c - scale * z - snd c)\<^sup>2 \<le> scale\<^sup>2"
    using scale by (simp add: mult_left_le)
  then have "sqrt ((fst c + scale * y - fst c)\<^sup>2 + (snd c - scale * z - snd c)\<^sup>2) \<le> scale"
    using scale by (simp add: real_le_lsqrt)
  then have inside: "\<not> scale < sqrt ((fst c + scale * y - fst c)\<^sup>2 + (snd c - scale * z - snd c)\<^sup>2)"
    by simp
  have "unrotate_view rot (x, y, z) = versor_cartesian p"
    unfolding w [symmetric] by (rule unrotate_rotate)
  then show ?thesis
    unfolding spec_invert_def Let_def fst_conv snd_conv right up depth
    using inside by simp
qed

lemma cartesian_as_turns: "versor_cartesian (lon, la) = yaw lon (pitch la (1, 0, 0))"
  by (simp add: versor_cartesian_def yaw_def pitch_def Let_def)

lemma roll_zero: "roll 0 v = v"
  by (cases v) (simp add: roll_def)

lemma centred_view: "rotate_view (- lon, - la, 0) (versor_cartesian (lon, la)) = (1, 0, 0)"
  by (simp add: rotate_view_def cartesian_as_turns yaw_back pitch_back roll_zero)

text \<open>
  C1, on the projection of the specification. Let the scale be positive. A point whose
  angular distance from the view centre is less than 90 degrees is projected to a screen
  point, and inverting that screen point gives coordinates of the same point of the
  sphere; they are the same longitude and latitude whenever the longitude is in
  \<open>(-180, 180]\<close> and the latitude is not a pole (at a pole every longitude names the same
  point). The equality is exact in real arithmetic. A point at more than 90 degrees is
  projected to NotVisible, a value: nothing is thrown.
\<close>

theorem project_invert_round_trip:
  assumes "0 < scale"
  shows "(view_angle rot p < 90 \<longrightarrow>
           (\<exists>xy q. spec_project rot scale c p = Some xy \<and> spec_invert rot scale c xy = Some q
              \<and> versor_cartesian q = versor_cartesian p
              \<and> (- 180 < fst p \<and> fst p \<le> 180 \<and> - 90 < snd p \<and> snd p < 90 \<longrightarrow> q = p)))
       \<and> (90 < view_angle rot p \<longrightarrow> spec_project rot scale c p = None)"
proof (intro conjI impI)
  obtain x y z where w: "rotate_view rot (versor_cartesian p) = (x, y, z)"
    by (cases "rotate_view rot (versor_cartesian p)")
  {
    assume "90 < view_angle rot p"
    then have "x < 0"
      using view_angle_depth [of rot p] by (simp add: w)
    then show "spec_project rot scale c p = None"
      by (simp add: project_visible [OF w])
  }
  {
    assume "view_angle rot p < 90"
    then have x: "0 < x"
      using view_angle_depth [of rot p] by (simp add: w)
    then have pr: "spec_project rot scale c p = Some (fst c + scale * y, snd c - scale * z)"
      by (simp add: project_visible [OF w])
    from x have "0 \<le> x" by simp
    with assms w have inv: "spec_invert rot scale c (fst c + scale * y, snd c - scale * z)
           = Some (spherical (versor_cartesian p))"
      by (rule invert_of_projected)
    have same: "versor_cartesian (spherical (versor_cartesian p)) = versor_cartesian p"
      by (rule cartesian_spherical) (rule cartesian_dot_self)
    have norm: "- 180 < fst p \<and> fst p \<le> 180 \<and> - 90 < snd p \<and> snd p < 90
        \<longrightarrow> spherical (versor_cartesian p) = p"
      using spherical_cartesian [of "fst p" "snd p"] by simp
    from pr inv same norm
    show "\<exists>xy q. spec_project rot scale c p = Some xy \<and> spec_invert rot scale c xy = Some q
              \<and> versor_cartesian q = versor_cartesian p
              \<and> (- 180 < fst p \<and> fst p \<le> 180 \<and> - 90 < snd p \<and> snd p < 90 \<longrightarrow> q = p)"
      by blast
  }
qed

theorem project_invert_round_trip_witness:
  "view_angle (0, 0, 0) (0, 0) < 90
   \<and> spec_project (0, 0, 0) 1 (0, 0) (0, 0) = Some (0, 0)
   \<and> spec_invert (0, 0, 0) 1 (0, 0) (0, 0) = Some (0, 0)
   \<and> 90 < view_angle (0, 0, 0) (180, 0)
   \<and> spec_project (0, 0, 0) 1 (0, 0) (180, 0) = None"
proof -
  have v0: "rotate_view (0, 0, 0) (versor_cartesian (0, 0)) = (1, 0, 0)"
    using centred_view [of 0 0] by simp
  have v1: "rotate_view (0, 0, 0) (versor_cartesian (180, 0)) = (- 1, 0, 0)"
    by (simp add: rotate_view_def versor_cartesian_def yaw_def pitch_def roll_def)
  have a0: "view_angle (0, 0, 0) (0, 0) < 90"
    by (simp add: view_angle_def v0)
  have a1: "90 < view_angle (0, 0, 0) (180, 0)"
    by (simp add: view_angle_def v1)
  have p0: "spec_project (0, 0, 0) 1 (0, 0) (0, 0) = Some (0, 0)"
    by (simp add: spec_project_def v0)
  from project_invert_round_trip [of 1 "(0, 0, 0)" "(0, 0)" "(0, 0)"] a0 p0
  have "spec_invert (0, 0, 0) 1 (0, 0) (0, 0) = Some (0, 0)"
    by auto
  moreover from project_invert_round_trip [of 1 "(0, 0, 0)" "(180, 0)" "(0, 0)"] a1
  have "spec_project (0, 0, 0) 1 (0, 0) (180, 0) = None"
    by simp
  ultimately show ?thesis
    using a0 a1 p0 by simp
qed

text \<open>
  C9. The rotation state starts as \<open>(-lng, -lat, 0)\<close> of the facility, and under this
  rotation the projection of the specification, with the scale and the translation
  \<open>(width / 2, height / 2)\<close> that \<^verbatim>\<open>render\<close> configures, maps the coordinate of the facility
  to the centre \<open>(width / 2, height / 2)\<close> of the canvas.
\<close>

theorem initial_rotation_centres_facility:
  "initialRotation facility = (- lng facility, - lat facility, 0)
   \<and> spec_project (initialRotation facility) (min w h / 2.2) (w / 2, h / 2)
         (lng facility, lat facility) = Some (w / 2, h / 2)"
proof -
  have start: "initialRotation facility = (- lng facility, - lat facility, 0)"
    by (simp add: initialRotation_def)
  have "rotate_view (- lng facility, - lat facility, 0)
          (versor_cartesian (lng facility, lat facility)) = (1, 0, 0)"
    by (rule centred_view)
  then have "spec_project (- lng facility, - lat facility, 0) (min w h / 2.2) (w / 2, h / 2)
         (lng facility, lat facility) = Some (w / 2, h / 2)"
    by (simp add: spec_project_def)
  with start show ?thesis
    by simp
qed

end
